theory Spec2Isabelle
  imports Complex_Main
begin

section \<open>Numbers\<close>

text \<open>
  The program computes with JavaScript numbers, which are IEEE 754 doubles.  The type
  \<open>number\<close> keeps the finite values, each as the real it denotes, apart from the three
  special values a computation can produce, so that a division by zero or a lookup of a
  missing key shows in the result instead of being hidden by a total HOL function.

  The functions of this section and of the sections on the tension, the recommendation, the
  inventory and the optimizer compute on the finite values in exact arithmetic.  Section
  \<open>Double-precision arithmetic\<close> gives the arithmetic of doubles itself, with rounding,
  overflow and all operands, and over it \<open>resolveScalesDouble\<close> and \<open>calcTensionDouble\<close>:
  the properties of \<^verbatim>\<open>resolveScales\<close> and \<^verbatim>\<open>calcTension\<close> that depend on the rounding or on
  a special value among the arguments are stated about these.
\<close>

datatype number = Num real | PosInfinity | NegInfinity | NaN

text \<open>\<^verbatim>\<open>x / y\<close> on finite operands, the divisor being \<^verbatim>\<open>+0\<close> when it is zero.\<close>

definition js_div :: "real \<Rightarrow> real \<Rightarrow> number" where
  "js_div x y =
     (if y \<noteq> 0 then Num (x / y)
      else if x = 0 then NaN
      else if 0 < x then PosInfinity else NegInfinity)"

text \<open>\<^verbatim>\<open>a + n\<close> for a finite \<^verbatim>\<open>a\<close>.\<close>

fun js_add :: "real \<Rightarrow> number \<Rightarrow> number" where
  "js_add a (Num b) = Num (a + b)"
| "js_add a PosInfinity = PosInfinity"
| "js_add a NegInfinity = NegInfinity"
| "js_add a NaN = NaN"

text \<open>\<^verbatim>\<open>m < n\<close>: every comparison with \<^verbatim>\<open>NaN\<close> is false.\<close>

fun js_less :: "number \<Rightarrow> number \<Rightarrow> bool" where
  "js_less (Num a) (Num b) = (a < b)"
| "js_less (Num a) PosInfinity = True"
| "js_less NegInfinity (Num b) = True"
| "js_less NegInfinity PosInfinity = True"
| "js_less _ _ = False"

section \<open>Constants\<close>

text \<open>
  The module \<^verbatim>\<open>constants\<close> that the utilities import is not among the sources, so
  its tables are parameters of the model.  An object keyed by gauge is a map from the
  gauge to its unit weight; a catalog is the list of its gauges in the order stored.
\<close>

record constants =
  A4 :: real
  NOTE_INDEX :: "string \<rightharpoonup> real"
  FLAT_TO_SHARP :: "string \<rightharpoonup> string"
  PLAIN_UNIT_WEIGHTS :: "real \<rightharpoonup> real"
  WOUND_UNIT_WEIGHTS :: "real \<rightharpoonup> real"
  PLAIN_GAUGES :: "real list"
  WOUND_GAUGES :: "real list"

text \<open>The string class \<^verbatim>\<open>'p' | 'w'\<close>.\<close>

datatype stype = P | W

text \<open>\<^verbatim>\<open>stype === 'p' ? PLAIN_UNIT_WEIGHTS : WOUND_UNIT_WEIGHTS\<close>\<close>

definition unitWeights :: "constants \<Rightarrow> stype \<Rightarrow> (real \<rightharpoonup> real)" where
  "unitWeights c st = (if st = P then PLAIN_UNIT_WEIGHTS c else WOUND_UNIT_WEIGHTS c)"

text \<open>\<^verbatim>\<open>stype === 'p' ? PLAIN_GAUGES : WOUND_GAUGES\<close>\<close>

definition catalog :: "constants \<Rightarrow> stype \<Rightarrow> real list" where
  "catalog c st = (if st = P then PLAIN_GAUGES c else WOUND_GAUGES c)"

section \<open>Tension\<close>

definition tensionFromMu :: "real \<Rightarrow> real \<Rightarrow> real \<Rightarrow> real" where
  "tensionFromMu mu scale freq = ((2 * scale * freq)\<^sup>2 * mu) / 386.4"

text \<open>\<^verbatim>\<open>table[gauge] || 0\<close>: a missing key and a stored zero both give zero.\<close>

definition calcTension :: "constants \<Rightarrow> real \<Rightarrow> stype \<Rightarrow> real \<Rightarrow> real \<Rightarrow> real" where
  "calcTension c gauge st scale freq =
     (let table = unitWeights c st;
          mu = (case table gauge of None \<Rightarrow> 0 | Some m \<Rightarrow> if m = 0 then 0 else m)
      in tensionFromMu mu scale freq)"

section \<open>Note names\<close>

text \<open>
  Strings are lists of characters, one \<open>char\<close> for each UTF-16 code unit of the
  JavaScript string (note tokens are ASCII).
\<close>

definition digitOf :: "char \<Rightarrow> nat option" where
  "digitOf ch =
     map_of [(CHR ''0'', 0), (CHR ''1'', 1), (CHR ''2'', 2), (CHR ''3'', 3), (CHR ''4'', 4),
             (CHR ''5'', 5), (CHR ''6'', 6), (CHR ''7'', 7), (CHR ''8'', 8), (CHR ''9'', 9)] ch"

definition isSpace :: "char \<Rightarrow> bool" where
  "isSpace ch = (ch \<in> set [CHR 0x20, CHR 0x09, CHR 0x0A, CHR 0x0B, CHR 0x0C, CHR 0x0D])"

text \<open>
  \<^verbatim>\<open>parseInt(s, 10)\<close>: leading white space is skipped, a sign is read, then the longest
  run of decimal digits; no digit gives \<^verbatim>\<open>NaN\<close>.
\<close>

definition parseInt :: "string \<Rightarrow> number" where
  "parseInt s =
     (let t = dropWhile isSpace s;
          negative = (case t of [] \<Rightarrow> False | ch # _ \<Rightarrow> ch = CHR ''-'');
          u = (case t of [] \<Rightarrow> []
               | ch # r \<Rightarrow> if ch = CHR ''-'' \<or> ch = CHR ''+'' then r else t);
          ds = takeWhile (\<lambda>ch. digitOf ch \<noteq> None) u;
          n = foldl (\<lambda>acc ch. case digitOf ch of None \<Rightarrow> acc | Some d \<Rightarrow> 10 * acc + d) 0 ds
      in if ds = [] then NaN
         else Num (if negative then - real n else real n))"

text \<open>
  \<^verbatim>\<open>note.slice(0, -1)\<close> is all but the last character and \<^verbatim>\<open>note.slice(-1)\<close> the last
  one (both empty for the empty string).  A name absent from \<^verbatim>\<open>NOTE_INDEX\<close> reads
  \<^verbatim>\<open>undefined\<close>, and the sum with it is \<^verbatim>\<open>NaN\<close>, as is every sum with an
  octave that is \<^verbatim>\<open>NaN\<close>.  The function has no \<^verbatim>\<open>throw\<close>.
\<close>

definition noteToFreq :: "constants \<Rightarrow> string \<Rightarrow> number" where
  "noteToFreq c note =
     (let name = take (length note - 1) note;
          octave = parseInt (drop (length note - 1) note);
          name' = (case FLAT_TO_SHARP c name of Some sharp \<Rightarrow> sharp | None \<Rightarrow> name)
      in case (NOTE_INDEX c name', octave) of
           (Some idx, Num oct) \<Rightarrow> Num (A4 c * 2 powr ((idx + (oct - 4) * 12) / 12))
         | _ \<Rightarrow> NaN)"

section \<open>Scales and string types\<close>

text \<open>\<^verbatim>\<open>number | [number, number]\<close>\<close>

datatype scale = Single real | Pair real real

definition resolveScales :: "scale \<Rightarrow> nat \<Rightarrow> number list" where
  "resolveScales scale nStrings =
     (case scale of
        Single s \<Rightarrow> replicate nStrings (Num s)
      | Pair treble bass \<Rightarrow>
          map (\<lambda>i. js_add treble (js_div ((bass - treble) * real i) (real nStrings - 1)))
            [0..<nStrings])"

text \<open>
  The override is declared \<^verbatim>\<open>string[] | null\<close> and cast to the class tags; the model
  takes it as tags.  An array is truthy also when it is empty.
\<close>

definition resolveStringTypes :: "stype list option \<Rightarrow> nat \<Rightarrow> stype list" where
  "resolveStringTypes stringTypes nStrings =
     (case stringTypes of
        Some ts \<Rightarrow> ts
      | None \<Rightarrow> map (\<lambda>i. if i < 3 then P else W) [0..<nStrings])"

section \<open>Gauge recommendation\<close>

text \<open>
  \<^verbatim>\<open>const mu = table[gauge]; const actual = tensionFromMu(mu, scale, freq);\<close>
  A gauge that is not a key of the table reads \<^verbatim>\<open>undefined\<close>, and the product with it
  is \<^verbatim>\<open>NaN\<close>.
\<close>

definition lookupTension :: "(real \<rightharpoonup> real) \<Rightarrow> real \<Rightarrow> real \<Rightarrow> real \<Rightarrow> number" where
  "lookupTension table gauge scale freq =
     (case table gauge of None \<Rightarrow> NaN | Some mu \<Rightarrow> Num (tensionFromMu mu scale freq))"

text \<open>\<^verbatim>\<open>Math.abs(actual - midpoint)\<close>\<close>

fun absDiff :: "number \<Rightarrow> real \<Rightarrow> number" where
  "absDiff (Num a) m = Num \<bar>a - m\<bar>"
| "absDiff PosInfinity m = PosInfinity"
| "absDiff NegInfinity m = PosInfinity"
| "absDiff NaN m = NaN"

text \<open>The first loop: the catalog gauges whose tension is in the range, with the tension.\<close>

fun inRangeGauges ::
  "(real \<rightharpoonup> real) \<Rightarrow> real \<Rightarrow> real \<Rightarrow> real \<Rightarrow> real \<Rightarrow> real list \<Rightarrow> (real \<times> real) list" where
  "inRangeGauges table scale freq minT maxT [] = []"
| "inRangeGauges table scale freq minT maxT (gauge # gauges) =
     (case lookupTension table gauge scale freq of
        Num actual \<Rightarrow>
          if actual \<ge> minT \<and> actual \<le> maxT
          then (gauge, actual) # inRangeGauges table scale freq minT maxT gauges
          else inRangeGauges table scale freq minT maxT gauges
      | _ \<Rightarrow> inRangeGauges table scale freq minT maxT gauges)"

text \<open>The second loop, over the gauges in range; the state is \<open>(bestGauge, bestError)\<close>.\<close>

fun closestInRange :: "real \<Rightarrow> real \<times> real \<Rightarrow> (real \<times> real) list \<Rightarrow> real \<times> real" where
  "closestInRange midpoint best [] = best"
| "closestInRange midpoint (bestGauge, bestError) ((gauge, actual) # rest) =
     (let error = \<bar>actual - midpoint\<bar>
      in if error < bestError then closestInRange midpoint (gauge, error) rest
         else closestInRange midpoint (bestGauge, bestError) rest)"

text \<open>The fallback loop, over the whole catalog; \<open>bestError\<close> starts as \<^verbatim>\<open>Infinity\<close>.\<close>

fun closestOverall ::
  "(real \<rightharpoonup> real) \<Rightarrow> real \<Rightarrow> real \<Rightarrow> real \<Rightarrow> real \<times> number \<Rightarrow> real list \<Rightarrow> real \<times> number" where
  "closestOverall table scale freq midpoint best [] = best"
| "closestOverall table scale freq midpoint (bestGauge, bestError) (gauge # gauges) =
     (let error = absDiff (lookupTension table gauge scale freq) midpoint
      in if js_less error bestError
         then closestOverall table scale freq midpoint (gauge, error) gauges
         else closestOverall table scale freq midpoint (bestGauge, bestError) gauges)"

text \<open>The result is \<open>None\<close> where the source returns \<^verbatim>\<open>gauges[0]\<close> of an empty catalog.\<close>

definition recommendGauge ::
  "constants \<Rightarrow> stype \<Rightarrow> real \<Rightarrow> real \<Rightarrow> real \<times> real \<Rightarrow> real option" where
  "recommendGauge c st scale freq target =
     (let table = unitWeights c st;
          gauges = catalog c st;
          minT = fst target;
          maxT = snd target;
          midpoint = (minT + maxT) / 2;
          inRange = inRangeGauges table scale freq minT maxT gauges
      in case inRange of
           (g0, a0) # _ \<Rightarrow> Some (fst (closestInRange midpoint (g0, \<bar>a0 - midpoint\<bar>) inRange))
         | [] \<Rightarrow>
            (case gauges of
               [] \<Rightarrow> None
             | g0 # _ \<Rightarrow>
                 Some (fst (closestOverall table scale freq midpoint (g0, PosInfinity) gauges))))"

definition isInRange :: "real \<Rightarrow> real \<times> real \<Rightarrow> bool" where
  "isInRange tension target = (tension \<ge> fst target \<and> tension \<le> snd target)"

text \<open>The distance of a gauge's tension from the midpoint of the target range.\<close>

definition tensionError ::
  "constants \<Rightarrow> stype \<Rightarrow> real \<Rightarrow> real \<Rightarrow> real \<times> real \<Rightarrow> real \<Rightarrow> real" where
  "tensionError c st scale freq target gauge =
     \<bar>calcTension c gauge st scale freq - (fst target + snd target) / 2\<bar>"

section \<open>Gauge inventory\<close>

text \<open>
  The interfaces of the front end.  Field names that several interfaces share, or that
  the functions use as the names of their variables, carry a prefix.
\<close>

record Guitar =
  guitar_name :: string
  n_strings :: nat
  guitar_scale :: scale
  tuning :: "string list"
  string_types :: "stype list option"
  target_plain :: "real \<times> real"
  target_wound :: "real \<times> real"

record StringSelection =
  sel_gauge :: real
  sel_type :: stype

text \<open>
  \<^verbatim>\<open>GuitarSelections\<close>: the selections of a guitar are stored under its index.  An
  entry of the array can be missing (\<^verbatim>\<open>undefined\<close>), which \<^verbatim>\<open>sel?.gauge\<close> allows for.
\<close>

type_synonym GuitarSelections = "nat \<rightharpoonup> StringSelection option list"

record UsageInfo =
  info_guitarIdx :: nat
  info_guitarName :: string
  info_stringIdx :: nat
  info_scale :: number
  info_freq :: number
  info_target :: "real \<times> real"

datatype direction = Up | Down

datatype boundType = BoundMin | BoundMax

record SwapOption =
  swap_gauge :: real
  swap_newTension :: real
  swap_currentTension :: real
  swap_tensionShift :: real
  swap_direction :: direction
  swap_targetMin :: real
  swap_targetMax :: real
  swap_inRange :: bool
  swap_requiredBound :: "(boundType \<times> real) option"

record GaugeUsageWithSwap =
  usage_gauge :: real
  usage_type :: stype
  usage_count :: nat
  usage_usages :: "UsageInfo list"
  usage_swapOption :: "SwapOption option"

text \<open>The guard \<^verbatim>\<open>if (!sel?.gauge) continue\<close>: an entry counts when it is there and its
  gauge is not zero.\<close>

definition hasGauge :: "StringSelection option \<Rightarrow> bool" where
  "hasGauge entry = (case entry of None \<Rightarrow> False | Some sel \<Rightarrow> sel_gauge sel \<noteq> 0)"

text \<open>
  The usage map keeps its keys in insertion order; the key \<^verbatim>\<open>${gauge}-${type}\<close> of a
  group is determined by, and determines, its gauge and type.  A new group starts with
  count 0 and no usages, and is then updated like an old one.
\<close>

fun addUsage ::
  "real \<Rightarrow> stype \<Rightarrow> UsageInfo \<Rightarrow> GaugeUsageWithSwap list \<Rightarrow> GaugeUsageWithSwap list" where
  "addUsage gauge st info [] =
     [\<lparr>usage_gauge = gauge, usage_type = st, usage_count = 0 + 1, usage_usages = [] @ [info],
       usage_swapOption = None\<rparr>]"
| "addUsage gauge st info (usage # rest) =
     (if usage_gauge usage = gauge \<and> usage_type usage = st
      then usage\<lparr>usage_count := usage_count usage + 1,
                 usage_usages := usage_usages usage @ [info]\<rparr> # rest
      else usage # addUsage gauge st info rest)"

text \<open>
  The string info of one selection.  A position beyond the resolved scales reads
  \<^verbatim>\<open>undefined\<close>, which every later use turns into \<^verbatim>\<open>NaN\<close>; a missing or empty
  tuning entry is replaced by \<^verbatim>\<open>'E4'\<close>.
\<close>

definition stringInfo ::
  "constants \<Rightarrow> Guitar \<Rightarrow> nat \<Rightarrow> number list \<Rightarrow> nat \<Rightarrow> StringSelection \<Rightarrow> UsageInfo" where
  "stringInfo c guitar gIdx scales sIdx sel =
     (let note = (if sIdx < length (tuning guitar) \<and> tuning guitar ! sIdx \<noteq> []
                  then tuning guitar ! sIdx else ''E4'')
      in \<lparr>info_guitarIdx = gIdx,
          info_guitarName = guitar_name guitar,
          info_stringIdx = sIdx,
          info_scale = (if sIdx < length scales then scales ! sIdx else NaN),
          info_freq = noteToFreq c note,
          info_target = (if sel_type sel = P then target_plain guitar else target_wound guitar)\<rparr>)"

text \<open>The inner loop of the first pass, over the positions of one guitar's selections.\<close>

definition collectGuitar ::
  "constants \<Rightarrow> Guitar \<Rightarrow> nat \<Rightarrow> StringSelection option list \<Rightarrow>
   GaugeUsageWithSwap list \<Rightarrow> GaugeUsageWithSwap list" where
  "collectGuitar c guitar gIdx guitarSel usageMap =
     (let scales = resolveScales (guitar_scale guitar) (n_strings guitar)
      in foldl (\<lambda>m sIdx.
           case guitarSel ! sIdx of
             None \<Rightarrow> m
           | Some sel \<Rightarrow>
               if sel_gauge sel = 0 then m
               else addUsage (sel_gauge sel) (sel_type sel)
                      (stringInfo c guitar gIdx scales sIdx sel) m)
         usageMap [0..<length guitarSel])"

text \<open>\<^verbatim>\<open>selections[gIdx.toString()] || []\<close>\<close>

definition selectionsOf :: "GuitarSelections \<Rightarrow> nat \<Rightarrow> StringSelection option list" where
  "selectionsOf selections gIdx =
     (case selections gIdx of None \<Rightarrow> [] | Some guitarSel \<Rightarrow> guitarSel)"

text \<open>The first pass, over the guitars.\<close>

definition collectUsages ::
  "constants \<Rightarrow> Guitar list \<Rightarrow> GuitarSelections \<Rightarrow> GaugeUsageWithSwap list" where
  "collectUsages c guitars selections =
     foldl (\<lambda>m gIdx.
        collectGuitar c (guitars ! gIdx) gIdx (selectionsOf selections gIdx) m)
       [] [0..<length guitars]"

text \<open>
  One step of the search for a swap among the other groups; the state is
  \<open>(bestSwap, minDeviation)\<close>.  \<^verbatim>\<open>if (!mu) continue\<close> skips a gauge without a unit
  weight and one whose weight is zero.
\<close>

definition swapStep ::
  "constants \<Rightarrow> GaugeUsageWithSwap \<Rightarrow> real \<Rightarrow> real \<Rightarrow> real \<times> real \<Rightarrow> real \<Rightarrow>
   SwapOption option \<times> number \<Rightarrow> GaugeUsageWithSwap \<Rightarrow> SwapOption option \<times> number" where
  "swapStep c usage scale freq target currentTension best otherUsage =
     (if usage_count otherUsage \<le> 1 then best
      else if usage_type otherUsage \<noteq> usage_type usage then best
      else if usage_gauge otherUsage = usage_gauge usage then best
      else
        let swapGauge = usage_gauge otherUsage
        in case unitWeights c (usage_type usage) swapGauge of
             None \<Rightarrow> best
           | Some mu \<Rightarrow>
               if mu = 0 then best
               else
                 let newTension = calcTension c swapGauge (usage_type usage) scale freq;
                     tensionShift = newTension - currentTension;
                     deviation = \<bar>tensionShift\<bar>
                 in if js_less (Num deviation) (snd best)
                    then
                      (let inRange = (newTension \<ge> fst target \<and> newTension \<le> snd target);
                           requiredBound =
                             (if \<not> inRange
                              then if newTension < fst target
                                   then Some (BoundMin, real_of_int \<lfloor>newTension * 2\<rfloor> / 2)
                                   else Some (BoundMax, real_of_int \<lceil>newTension * 2\<rceil> / 2)
                              else None)
                       in (Some \<lparr>swap_gauge = swapGauge,
                                 swap_newTension = newTension,
                                 swap_currentTension = currentTension,
                                 swap_tensionShift = tensionShift,
                                 swap_direction = (if tensionShift > 0 then Up else Down),
                                 swap_targetMin = fst target,
                                 swap_targetMax = snd target,
                                 swap_inRange = inRange,
                                 swap_requiredBound = requiredBound\<rparr>,
                           Num deviation))
                    else best)"

text \<open>
  The search for one singleton, in the context of its only string.  When the scale or the
  frequency of that string is not a finite number, every tension computed from it is
  \<^verbatim>\<open>NaN\<close> or infinite, no deviation is below \<^verbatim>\<open>Infinity\<close>, and no swap is found.
  (A group of count 1 has one usage; the empty case is there for totality.)
\<close>

definition findSwap ::
  "constants \<Rightarrow> GaugeUsageWithSwap list \<Rightarrow> GaugeUsageWithSwap \<Rightarrow> SwapOption option" where
  "findSwap c usages usage =
     (case usage_usages usage of
        [] \<Rightarrow> None
      | info # _ \<Rightarrow>
          (case (info_scale info, info_freq info) of
             (Num scale, Num freq) \<Rightarrow>
               (let target = info_target info;
                    currentTension =
                      calcTension c (usage_gauge usage) (usage_type usage) scale freq
                in fst (foldl (swapStep c usage scale freq target currentTension)
                          (None, PosInfinity) usages))
           | _ \<Rightarrow> None))"

text \<open>The second pass: \<^verbatim>\<open>if (usage.count !== 1) continue\<close>, then the search.\<close>

definition findSwaps :: "constants \<Rightarrow> GaugeUsageWithSwap list \<Rightarrow> GaugeUsageWithSwap list" where
  "findSwaps c usages =
     map (\<lambda>usage.
        if usage_count usage \<noteq> 1 then usage
        else (case findSwap c usages usage of
                None \<Rightarrow> usage
              | Some bestSwap \<Rightarrow> usage\<lparr>usage_swapOption := Some bestSwap\<rparr>))
       usages"

text \<open>\<^verbatim>\<open>usages.sort((a, b) => a.gauge - b.gauge)\<close>: a stable sort by gauge.\<close>

definition buildGaugeUsages ::
  "constants \<Rightarrow> Guitar list \<Rightarrow> GuitarSelections \<Rightarrow> GaugeUsageWithSwap list" where
  "buildGaugeUsages c guitars selections =
     sort_key usage_gauge (findSwaps c (collectUsages c guitars selections))"

section \<open>Global optimization\<close>

text \<open>
  Modelled from the spec: the operation \<^verbatim>\<open>optimize\<close>, which the front end requests
  from the server (\<^verbatim>\<open>optimizeGauges\<close> posts to \<^verbatim>\<open>/api/optimize\<close>) and whose code is
  not among the sources.  The model follows the spec's sections 3, 4.6 and 4.7.  The
  instruments appear through the string contexts resolved from them: every string of
  every instrument is an entry of the working set, with its context (resolved scale,
  class, frequency and target range) and its current selection, a (gauge, class) pair.
\<close>

record StringContext =
  ctx_scale :: real
  ctx_class :: stype
  ctx_freq :: real
  ctx_target :: "real \<times> real"

type_synonym Selection = "real \<times> stype"

type_synonym WorkingSet = "(StringContext \<times> Selection) list"

text \<open>Modelled from the spec: the tension of a gauge in a string's context, and whether
  it is inside the string's target range.\<close>

definition contextTension :: "constants \<Rightarrow> StringContext \<Rightarrow> real \<Rightarrow> real" where
  "contextTension c ctx gauge =
     calcTension c gauge (ctx_class ctx) (ctx_scale ctx) (ctx_freq ctx)"

definition inTarget :: "constants \<Rightarrow> StringContext \<Rightarrow> real \<Rightarrow> bool" where
  "inTarget c ctx gauge = isInRange (contextTension c ctx gauge) (ctx_target ctx)"

text \<open>
  Modelled from the spec: pass 1, repair.  A string whose current tension is outside its
  target range gets the gauge that the recommender returns for its own context; the
  other strings are not touched.  (With an empty catalog there is no gauge to recommend,
  and the selection stays.)
\<close>

definition repair :: "constants \<Rightarrow> WorkingSet \<Rightarrow> WorkingSet" where
  "repair c strings =
     map (\<lambda>(ctx, sel).
        if inTarget c ctx (fst sel) then (ctx, sel)
        else (case recommendGauge c (ctx_class ctx) (ctx_scale ctx) (ctx_freq ctx)
                     (ctx_target ctx) of
                None \<Rightarrow> (ctx, sel)
              | Some gauge \<Rightarrow> (ctx, (gauge, snd sel))))
       strings"

text \<open>
  Modelled from the spec: the usage count of a (gauge, class) pair is the number of
  strings that use it; a pair is a singleton when the count is 1 and common when it is
  greater than 1.
\<close>

definition usageCount :: "WorkingSet \<Rightarrow> Selection \<Rightarrow> nat" where
  "usageCount strings p = length (filter (\<lambda>(ctx, sel). sel = p) strings)"

text \<open>Modelled from the spec: the gauges of the common groups of a class, each once, in
  the order of their first use.\<close>

definition commonGauges :: "WorkingSet \<Rightarrow> stype \<Rightarrow> real list" where
  "commonGauges strings cl =
     map fst (filter (\<lambda>p. snd p = cl \<and> usageCount strings p > 1)
                (rev (remdups (rev (map snd strings)))))"

text \<open>Modelled from the spec: a linear scan for the candidate that deviates least; of
  two candidates that deviate equally the one met first is kept.\<close>

fun leastDeviation :: "(real \<Rightarrow> real) \<Rightarrow> real list \<Rightarrow> real option" where
  "leastDeviation dev [] = None"
| "leastDeviation dev (g # gs) =
     (case leastDeviation dev gs of
        None \<Rightarrow> Some g
      | Some h \<Rightarrow> if dev h < dev g then Some h else Some g)"

text \<open>
  Modelled from the spec: the swap candidate of a singleton is the gauge, among the
  common groups of the same class, whose tension in the singleton's own context deviates
  least in absolute value from the singleton's current tension in that context.
\<close>

definition swapCandidate :: "constants \<Rightarrow> WorkingSet \<Rightarrow> StringContext \<Rightarrow> Selection \<Rightarrow> real option" where
  "swapCandidate c strings ctx sel =
     leastDeviation (\<lambda>g. \<bar>contextTension c ctx g - contextTension c ctx (fst sel)\<bar>)
       (commonGauges strings (snd sel))"

text \<open>
  Modelled from the spec: pass 2, consolidation of the singletons.  The usage groups are
  those of the set the pass starts from; a singleton whose swap candidate keeps the
  string in range takes the candidate's gauge.
\<close>

definition consolidateString ::
  "constants \<Rightarrow> WorkingSet \<Rightarrow> StringContext \<times> Selection \<Rightarrow> StringContext \<times> Selection" where
  "consolidateString c strings =
     (\<lambda>(ctx, sel).
        if usageCount strings sel = 1
        then (case swapCandidate c strings ctx sel of
                None \<Rightarrow> (ctx, sel)
              | Some gauge \<Rightarrow>
                  if inTarget c ctx gauge then (ctx, (gauge, snd sel)) else (ctx, sel))
        else (ctx, sel))"

definition consolidate :: "constants \<Rightarrow> WorkingSet \<Rightarrow> WorkingSet" where
  "consolidate c strings = map (consolidateString c strings) strings"

text \<open>Modelled from the spec: pass 3, pass 2 repeated until it changes nothing.\<close>

function minimize :: "constants \<Rightarrow> WorkingSet \<Rightarrow> WorkingSet" where
  "minimize c strings =
     (let strings' = consolidate c strings
      in if strings' = strings then strings else minimize c strings')"
  by pat_completeness auto

text \<open>Modelled from the spec: the three passes in order; the result is the new
  selection of every string.\<close>

definition optimize :: "constants \<Rightarrow> WorkingSet \<Rightarrow> Selection list" where
  "optimize c strings = map snd (minimize c (repair c strings))"

text \<open>The number of distinct (gauge, class) pairs of a selection set.\<close>

definition distinctPairs :: "Selection list \<Rightarrow> nat" where
  "distinctPairs sels = card (set sels)"

section \<open>Double-precision arithmetic\<close>

text \<open>
  A finite double is \<open>m * 2 powi (e - 52)\<close> for an integer significand \<open>m\<close> of at most 53 bits
  and an exponent \<open>e\<close> from -1022 to 1023.  Every arithmetic operation of JavaScript returns
  the exact result rounded to the nearest double, a tie going to the even significand, and
  an infinity when the rounded result is beyond the largest double.
\<close>

text \<open>The nearest integer, a tie going to the even one.\<close>

definition roundEven :: "real \<Rightarrow> int" where
  "roundEven x =
     (let f = \<lfloor>x\<rfloor>; r = x - real_of_int f
      in if r < 1 / 2 then f
         else if 1 / 2 < r then f + 1
         else if even f then f else f + 1)"

text \<open>
  The exponent of a magnitude: \<open>e\<close> with \<open>2 powi e \<le> a < 2 powi (e + 1)\<close>, and -1022 for the
  subnormal magnitudes below \<open>2 powi (- 1022)\<close>.  The search halves or doubles the magnitude
  at most 2100 times, which reaches every exponent from -1022 to 1024.
\<close>

fun binade :: "nat \<Rightarrow> real \<Rightarrow> int \<Rightarrow> int" where
  "binade 0 a e = e"
| "binade (Suc n) a e =
     (if 2 \<le> a then binade n (a / 2) (e + 1)
      else if a < 1 \<and> - 1022 < e then binade n (2 * a) (e - 1)
      else e)"

definition exponentOf :: "real \<Rightarrow> int" where
  "exponentOf a = binade 2100 a 0"

definition significand :: "real \<Rightarrow> int" where
  "significand a = roundEven (a / 2 powi (exponentOf a - 52))"

definition roundMagnitude :: "real \<Rightarrow> real" where
  "roundMagnitude a = real_of_int (significand a) * 2 powi (exponentOf a - 52)"

text \<open>The rounded magnitude is \<open>2 ^ 1024\<close> or more: there is no such double.\<close>

definition overflows :: "real \<Rightarrow> bool" where
  "overflows a = (1024 \<le> exponentOf a \<or> (exponentOf a = 1023 \<and> significand a = 2 ^ 53))"

text \<open>The double that an operation with the exact result \<open>x\<close> returns.\<close>

definition fl :: "real \<Rightarrow> number" where
  "fl x =
     (if overflows \<bar>x\<bar> then (if 0 < x then PosInfinity else NegInfinity)
      else Num (if 0 < x then roundMagnitude \<bar>x\<bar> else - roundMagnitude \<bar>x\<bar>))"

text \<open>The reals that are doubles: the finite values a JavaScript number can hold.\<close>

definition isDouble :: "real \<Rightarrow> bool" where
  "isDouble x = (fl x = Num x)"

text \<open>\<^verbatim>\<open>m <= n\<close>: every comparison with \<^verbatim>\<open>NaN\<close> is false.\<close>

fun js_le :: "number \<Rightarrow> number \<Rightarrow> bool" where
  "js_le (Num a) (Num b) = (a \<le> b)"
| "js_le (Num a) PosInfinity = True"
| "js_le NegInfinity (Num b) = True"
| "js_le NegInfinity NegInfinity = True"
| "js_le NegInfinity PosInfinity = True"
| "js_le PosInfinity PosInfinity = True"
| "js_le _ _ = False"

text \<open>\<^verbatim>\<open>-x\<close>, \<^verbatim>\<open>x + y\<close> and \<^verbatim>\<open>x - y\<close> on all numbers.\<close>

fun double_neg :: "number \<Rightarrow> number" where
  "double_neg (Num a) = Num (- a)"
| "double_neg PosInfinity = NegInfinity"
| "double_neg NegInfinity = PosInfinity"
| "double_neg NaN = NaN"

fun double_add :: "number \<Rightarrow> number \<Rightarrow> number" where
  "double_add (Num a) (Num b) = fl (a + b)"
| "double_add NaN y = NaN"
| "double_add x NaN = NaN"
| "double_add PosInfinity NegInfinity = NaN"
| "double_add NegInfinity PosInfinity = NaN"
| "double_add PosInfinity y = PosInfinity"
| "double_add x PosInfinity = PosInfinity"
| "double_add NegInfinity y = NegInfinity"
| "double_add x NegInfinity = NegInfinity"

definition double_sub :: "number \<Rightarrow> number \<Rightarrow> number" where
  "double_sub x y = double_add x (double_neg y)"

text \<open>An infinite product or quotient, its sign given by the signs of the operands.\<close>

definition signedInfinity :: "bool \<Rightarrow> number" where
  "signedInfinity positive = (if positive then PosInfinity else NegInfinity)"

text \<open>\<^verbatim>\<open>x * y\<close> on all numbers: an infinity times zero is \<^verbatim>\<open>NaN\<close>.\<close>

fun double_mul :: "number \<Rightarrow> number \<Rightarrow> number" where
  "double_mul (Num a) (Num b) = fl (a * b)"
| "double_mul NaN y = NaN"
| "double_mul x NaN = NaN"
| "double_mul (Num a) PosInfinity = (if a = 0 then NaN else signedInfinity (0 < a))"
| "double_mul (Num a) NegInfinity = (if a = 0 then NaN else signedInfinity (a < 0))"
| "double_mul PosInfinity (Num b) = (if b = 0 then NaN else signedInfinity (0 < b))"
| "double_mul NegInfinity (Num b) = (if b = 0 then NaN else signedInfinity (b < 0))"
| "double_mul PosInfinity PosInfinity = PosInfinity"
| "double_mul NegInfinity NegInfinity = PosInfinity"
| "double_mul PosInfinity NegInfinity = NegInfinity"
| "double_mul NegInfinity PosInfinity = NegInfinity"

text \<open>\<^verbatim>\<open>x / y\<close> on all numbers, a zero divisor being \<^verbatim>\<open>+0\<close>.\<close>

fun double_div :: "number \<Rightarrow> number \<Rightarrow> number" where
  "double_div (Num a) (Num b) =
     (if b \<noteq> 0 then fl (a / b)
      else if a = 0 then NaN else signedInfinity (0 < a))"
| "double_div NaN y = NaN"
| "double_div x NaN = NaN"
| "double_div (Num a) y = Num 0"
| "double_div PosInfinity (Num b) = signedInfinity (0 \<le> b)"
| "double_div NegInfinity (Num b) = signedInfinity (b < 0)"
| "double_div x y = NaN"

text \<open>\<^verbatim>\<open>Math.pow(x, 2)\<close>: the square, rounded once; \<^verbatim>\<open>NaN\<close> for \<^verbatim>\<open>NaN\<close>, infinite for an
  infinity.\<close>

definition double_square :: "number \<Rightarrow> number" where
  "double_square x = double_mul x x"

text \<open>
  \<^verbatim>\<open>resolveScales\<close> as it computes: \<^verbatim>\<open>treble + (bass - treble) * i / (nStrings - 1)\<close> is four
  operations, each rounded, in the order of the precedence of the operators.  The index
  and \<^verbatim>\<open>nStrings - 1\<close> are small integers, which are doubles.
\<close>

definition resolveScalesDouble :: "scale \<Rightarrow> nat \<Rightarrow> number list" where
  "resolveScalesDouble scale nStrings =
     (case scale of
        Single s \<Rightarrow> replicate nStrings (Num s)
      | Pair treble bass \<Rightarrow>
          map (\<lambda>i. double_add (Num treble)
                    (double_div (double_mul (double_sub (Num bass) (Num treble)) (Num (real i)))
                       (Num (real nStrings - 1))))
            [0..<nStrings])"

text \<open>
  \<^verbatim>\<open>tensionFromMu\<close> and \<^verbatim>\<open>calcTension\<close> as they compute, the scale and the frequency being
  any numbers: \<^verbatim>\<open>(Math.pow(2 * scale * freq, 2) * mu) / 386.4\<close>, the literal being the double
  nearest to 386.4.
\<close>

definition tensionFromMuDouble :: "number \<Rightarrow> number \<Rightarrow> number \<Rightarrow> number" where
  "tensionFromMuDouble mu scale freq =
     double_div
       (double_mul (double_square (double_mul (double_mul (Num 2) scale) freq)) mu)
       (fl 386.4)"

definition calcTensionDouble ::
  "constants \<Rightarrow> real \<Rightarrow> stype \<Rightarrow> number \<Rightarrow> number \<Rightarrow> number" where
  "calcTensionDouble c gauge st scale freq =
     (let table = unitWeights c st;
          mu = (case table gauge of None \<Rightarrow> Num 0 | Some m \<Rightarrow> if m = 0 then Num 0 else Num m)
      in tensionFromMuDouble mu scale freq)"

section \<open>A sample instance of the constants\<close>

text \<open>
  Modelled from the spec: the tables of the module \<^verbatim>\<open>constants\<close>, which is not among
  the sources.  The reference pitch is 440, the index of a note name is its distance from
  A in semitones, flat spellings map to their sharp equivalents, and the unit weights
  grow with the gauge.  The instance is used only to evaluate the functions at concrete
  inputs; every general theorem below holds for all tables.
\<close>

definition sampleConstants :: constants where
  "sampleConstants =
     \<lparr>A4 = 440,
      NOTE_INDEX = map_of
        [(''C'', -9), (''C#'', -8), (''D'', -7), (''D#'', -6), (''E'', -5), (''F'', -4),
         (''F#'', -3), (''G'', -2), (''G#'', -1), (''A'', 0), (''A#'', 1), (''B'', 2)],
      FLAT_TO_SHARP = map_of
        [(''Db'', ''C#''), (''Eb'', ''D#''), (''Gb'', ''F#''), (''Ab'', ''G#''), (''Bb'', ''A#'')],
      PLAIN_UNIT_WEIGHTS = map_of
        [(0.009, 0.00001794), (0.010, 0.00002215), (0.011, 0.00002680)],
      WOUND_UNIT_WEIGHTS = map_of
        [(0.024, 0.00010857), (0.026, 0.00012671)],
      PLAIN_GAUGES = [0.009, 0.010, 0.011],
      WOUND_GAUGES = [0.024, 0.026]\<rparr>"

text \<open>A six-string guitar and a full set of selections for it, for evaluation.\<close>

definition sampleGuitar :: Guitar where
  "sampleGuitar =
     \<lparr>guitar_name = ''Sample'', n_strings = 6, guitar_scale = Single 25.5,
      tuning = [''A5'', ''A4'', ''A4'', ''A4'', ''A4'', ''A4''], string_types = None,
      target_plain = (13, 15.5), target_wound = (16, 20)\<rparr>"

definition sampleSelection :: "StringSelection option list" where
  "sampleSelection =
     [Some \<lparr>sel_gauge = 0.009, sel_type = P\<rparr>, Some \<lparr>sel_gauge = 0.010, sel_type = P\<rparr>,
      Some \<lparr>sel_gauge = 0.010, sel_type = P\<rparr>, Some \<lparr>sel_gauge = 0.024, sel_type = W\<rparr>,
      Some \<lparr>sel_gauge = 0.026, sel_type = W\<rparr>, Some \<lparr>sel_gauge = 0.026, sel_type = W\<rparr>]"

text \<open>
  The six strings of a guitar of scale 25.5 tuned E4 B3 G3 D3 A2 E2 (frequencies to two
  decimals), three plain and three wound, with the target ranges 13 to 15.5 and 16 to 20,
  all plain strings on one gauge and all wound strings on another.
\<close>

definition sampleStrings :: WorkingSet where
  "sampleStrings =
     [(\<lparr>ctx_scale = 25.5, ctx_class = P, ctx_freq = 329.63, ctx_target = (13, 15.5)\<rparr>, (0.010, P)),
      (\<lparr>ctx_scale = 25.5, ctx_class = P, ctx_freq = 246.94, ctx_target = (13, 15.5)\<rparr>, (0.010, P)),
      (\<lparr>ctx_scale = 25.5, ctx_class = P, ctx_freq = 196.00, ctx_target = (13, 15.5)\<rparr>, (0.010, P)),
      (\<lparr>ctx_scale = 25.5, ctx_class = W, ctx_freq = 146.83, ctx_target = (16, 20)\<rparr>, (0.024, W)),
      (\<lparr>ctx_scale = 25.5, ctx_class = W, ctx_freq = 110.00, ctx_target = (16, 20)\<rparr>, (0.024, W)),
      (\<lparr>ctx_scale = 25.5, ctx_class = W, ctx_freq = 82.41, ctx_target = (16, 20)\<rparr>, (0.024, W))]"

text \<open>Three plain strings in one context, all inside the target range, one of them on a
  gauge of its own.\<close>

definition inRangeStrings :: WorkingSet where
  "inRangeStrings =
     [(\<lparr>ctx_scale = 25.5, ctx_class = P, ctx_freq = 330, ctx_target = (13, 17)\<rparr>, (0.009, P)),
      (\<lparr>ctx_scale = 25.5, ctx_class = P, ctx_freq = 330, ctx_target = (13, 17)\<rparr>, (0.010, P)),
      (\<lparr>ctx_scale = 25.5, ctx_class = P, ctx_freq = 330, ctx_target = (13, 17)\<rparr>, (0.010, P))]"

section \<open>Evaluation at the sample instance\<close>

lemma sample_plain_010: "unitWeights sampleConstants P 0.010 = Some 0.00002215"
  by (simp add: unitWeights_def sampleConstants_def)

lemma sample_plain_0105: "unitWeights sampleConstants P 0.0105 = None"
  by (simp add: unitWeights_def sampleConstants_def)

section \<open>Rounding to doubles\<close>

text \<open>Rounding is monotone, exact at zero, and gives an infinity from \<open>2 ^ 1024\<close> on.\<close>

lemma roundEven_bounds:
  "real_of_int (roundEven x) \<le> x + 1 / 2" "x - 1 / 2 \<le> real_of_int (roundEven x)"
  unfolding roundEven_def Let_def by (auto; linarith)+

lemma roundEven_int [simp]: "roundEven (real_of_int k) = k"
  by (simp add: roundEven_def)

lemma roundEven_mono:
  assumes "x \<le> y"
  shows "roundEven x \<le> roundEven y"
proof (cases "\<lfloor>x\<rfloor> = \<lfloor>y\<rfloor>")
  case True
  with assms show ?thesis
    unfolding roundEven_def Let_def by (auto; linarith)
next
  case False
  with assms have "\<lfloor>x\<rfloor> < \<lfloor>y\<rfloor>" by (simp add: floor_mono order_less_le)
  then have "\<lfloor>x\<rfloor> + 1 \<le> \<lfloor>y\<rfloor>" by simp
  moreover have "roundEven x \<le> \<lfloor>x\<rfloor> + 1" by (auto simp: roundEven_def Let_def)
  moreover have "\<lfloor>y\<rfloor> \<le> roundEven y" by (auto simp: roundEven_def Let_def)
  ultimately show ?thesis by linarith
qed

lemma roundEven_ge: "real_of_int k \<le> x \<Longrightarrow> k \<le> roundEven x"
  using roundEven_mono [of "real_of_int k" x] by simp

lemma roundEven_le: "x \<le> real_of_int k \<Longrightarrow> roundEven x \<le> k"
  using roundEven_mono [of x "real_of_int k"] by simp

lemma powi_succ: "(2::real) powi (e + 1) = 2 * 2 powi e"
  by (simp add: power_int_add)

lemma powi_pred: "(2::real) powi (e - 1) = 2 powi e / 2"
  by (simp add: power_int_diff)

lemma binade_spec:
  assumes "0 \<le> a" "- 1022 \<le> e" "a < 2 ^ (n + 1)" "e - int n \<le> - 1022 \<or> 1 \<le> a * 2 ^ n"
  shows "- 1022 \<le> binade n a e \<and> a * 2 powi e < 2 powi (binade n a e + 1) \<and>
         (- 1022 < binade n a e \<longrightarrow> 2 powi (binade n a e) \<le> a * 2 powi e)"
  using assms
proof (induction n arbitrary: a e)
  case 0
  have pos: "(0::real) < 2 powi e" by simp
  from 0 have "a < 2" by simp
  then have "a * 2 powi e < 2 * 2 powi e" using pos by simp
  moreover have "- 1022 < e \<longrightarrow> 2 powi e \<le> a * 2 powi e"
  proof
    assume "- 1022 < e"
    with 0 have "1 \<le> a" by simp
    then show "2 powi e \<le> a * 2 powi e" using pos by simp
  qed
  ultimately show ?case using 0 by (simp add: powi_succ)
next
  case (Suc n)
  have pos: "(0::real) < 2 powi e" by simp
  show ?case
  proof (cases "2 \<le> a")
    case True
    have "a / 2 < 2 ^ (n + 1)" using Suc.prems(3) by simp
    moreover have "1 \<le> a / 2 * 2 ^ n"
    proof -
      have "1 * 1 \<le> (a / 2) * 2 ^ n"
        using True by (intro mult_mono) simp_all
      then show ?thesis by simp
    qed
    ultimately have "- 1022 \<le> binade n (a / 2) (e + 1) \<and>
         a / 2 * 2 powi (e + 1) < 2 powi (binade n (a / 2) (e + 1) + 1) \<and>
         (- 1022 < binade n (a / 2) (e + 1) \<longrightarrow>
            2 powi (binade n (a / 2) (e + 1)) \<le> a / 2 * 2 powi (e + 1))"
      using Suc.prems(1,2) by (intro Suc.IH) simp_all
    then show ?thesis using True by (simp add: powi_succ)
  next
    case False
    show ?thesis
    proof (cases "a < 1 \<and> - 1022 < e")
      case True
      have "2 * a < 2 ^ (n + 1)"
      proof -
        have "2 * a < 2 * 1" using True by simp
        also have "\<dots> \<le> 2 * 2 ^ n" by simp
        finally show ?thesis by simp
      qed
      moreover have "e - 1 - int n \<le> - 1022 \<or> 1 \<le> 2 * a * 2 ^ n"
        using Suc.prems(4) by (auto simp: algebra_simps)
      ultimately have "- 1022 \<le> binade n (2 * a) (e - 1) \<and>
         2 * a * 2 powi (e - 1) < 2 powi (binade n (2 * a) (e - 1) + 1) \<and>
         (- 1022 < binade n (2 * a) (e - 1) \<longrightarrow>
            2 powi (binade n (2 * a) (e - 1)) \<le> 2 * a * 2 powi (e - 1))"
        using Suc.prems(1) True by (intro Suc.IH) simp_all
      then show ?thesis using True False by (simp add: powi_pred)
    next
      case stop: False
      from False have "a < 2" by simp
      then have "a * 2 powi e < 2 * 2 powi e" using pos by simp
      moreover have "- 1022 < e \<longrightarrow> 2 powi e \<le> a * 2 powi e"
      proof
        assume "- 1022 < e"
        with stop have "1 \<le> a" by simp
        then show "2 powi e \<le> a * 2 powi e" using pos by simp
      qed
      moreover have "binade (Suc n) a e = e" using False stop by auto
      ultimately show ?thesis using Suc.prems(2) unfolding powi_succ by presburger
    qed
  qed
qed

lemma binade_lower:
  assumes "1 \<le> a" "2 ^ k \<le> a" "k \<le> n"
  shows "e + int k \<le> binade n a e"
  using assms
proof (induction n arbitrary: a e k)
  case 0
  then show ?case by simp
next
  case (Suc n)
  show ?case
  proof (cases "2 \<le> a")
    case True
    then have half: "1 \<le> a / 2" by simp
    show ?thesis
    proof (cases k)
      case 0
      have "e + 1 + int 0 \<le> binade n (a / 2) (e + 1)"
        using half by (intro Suc.IH) simp_all
      then show ?thesis using True 0 by simp
    next
      case (Suc k')
      have "2 ^ k' \<le> a / 2" using Suc.prems(2) Suc by simp
      moreover have "k' \<le> n" using Suc.prems(3) Suc by simp
      ultimately have "e + 1 + int k' \<le> binade n (a / 2) (e + 1)"
        using half by (intro Suc.IH) simp_all
      then show ?thesis using True Suc by simp
    qed
  next
    case False
    have "k = 0"
    proof (rule ccontr)
      assume "k \<noteq> 0"
      then have "(2::real) ^ 1 \<le> 2 ^ k" by (intro power_increasing) simp_all
      with Suc.prems(2) False show False by simp
    qed
    then show ?thesis using False Suc.prems(1) by simp
  qed
qed

lemma exponent_spec:
  assumes "0 \<le> a" "a < 2 ^ 2101"
  shows "- 1022 \<le> exponentOf a" "a < 2 powi (exponentOf a + 1)"
    "- 1022 < exponentOf a \<Longrightarrow> 2 powi (exponentOf a) \<le> a"
proof -
  have "a < 2 ^ (2100 + 1)" using assms(2) by simp
  from binade_spec [OF assms(1) _ this, of 0]
  show "- 1022 \<le> exponentOf a" "a < 2 powi (exponentOf a + 1)"
    "- 1022 < exponentOf a \<Longrightarrow> 2 powi (exponentOf a) \<le> a"
    by (simp_all add: exponentOf_def)
qed

lemma exponent_huge:
  assumes "2 ^ 2101 \<le> a"
  shows "2100 \<le> exponentOf a"
proof -
  have "(2::real) ^ 2100 \<le> 2 ^ 2101" by (intro power_increasing) simp_all
  with assms have big: "2 ^ 2100 \<le> a" by simp
  have "(1::real) \<le> 2 ^ 2100" by simp
  with big have "1 \<le> a" by linarith
  from binade_lower [OF this big, of 2100 0] show ?thesis by (simp add: exponentOf_def)
qed

lemma ulp_53: "(2::real) powi (e - 52) * real_of_int (2 ^ 53) = 2 powi (e + 1)"
proof -
  have "(2::real) powi (e - 52 + 53) = 2 powi (e - 52) * 2 powi 53"
    by (rule power_int_add) simp
  then show ?thesis by (simp add: add.commute)
qed

lemma ulp_52: "(2::real) powi (e - 52) * real_of_int (2 ^ 52) = 2 powi e"
proof -
  have "(2::real) powi (e - 52 + 52) = 2 powi (e - 52) * 2 powi 52"
    by (rule power_int_add) simp
  then show ?thesis by simp
qed

lemma significand_upper:
  assumes "0 \<le> a" "a < 2 ^ 2101"
  shows "significand a \<le> 2 ^ 53"
proof -
  define u :: real where "u = 2 powi (exponentOf a - 52)"
  have u: "0 < u" by (simp add: u_def)
  have "a < 2 powi (exponentOf a + 1)" by (rule exponent_spec(2) [OF assms])
  also have "\<dots> = u * real_of_int (2 ^ 53)" unfolding u_def by (rule ulp_53 [symmetric])
  finally have "a / u \<le> real_of_int (2 ^ 53)"
    using u by (simp add: pos_divide_le_eq mult.commute)
  then have "roundEven (a / u) \<le> 2 ^ 53" by (rule roundEven_le)
  then show ?thesis by (simp add: significand_def u_def)
qed

lemma significand_lower:
  assumes "0 \<le> a" "a < 2 ^ 2101" "- 1022 < exponentOf a"
  shows "2 ^ 52 \<le> significand a"
proof -
  define u :: real where "u = 2 powi (exponentOf a - 52)"
  have u: "0 < u" by (simp add: u_def)
  have "u * real_of_int (2 ^ 52) = 2 powi (exponentOf a)" unfolding u_def by (rule ulp_52)
  also have "\<dots> \<le> a" by (rule exponent_spec(3) [OF assms])
  finally have "real_of_int (2 ^ 52) \<le> a / u"
    using u by (simp add: pos_le_divide_eq mult.commute)
  then have "2 ^ 52 \<le> roundEven (a / u)" by (rule roundEven_ge)
  then show ?thesis by (simp add: significand_def u_def)
qed

lemma roundMagnitude_upper:
  assumes "0 \<le> a" "a < 2 ^ 2101"
  shows "roundMagnitude a \<le> 2 powi (exponentOf a + 1)"
proof -
  define u :: real where "u = 2 powi (exponentOf a - 52)"
  have u: "0 < u" by (simp add: u_def)
  have "real_of_int (significand a) \<le> real_of_int (2 ^ 53)"
    using significand_upper [OF assms] by linarith
  then have "real_of_int (significand a) * u \<le> real_of_int (2 ^ 53) * u"
    using u by (intro mult_right_mono) simp_all
  also have "\<dots> = 2 powi (exponentOf a + 1)"
    unfolding u_def using ulp_53 [of "exponentOf a"] by (simp add: mult.commute)
  finally show ?thesis unfolding roundMagnitude_def u_def .
qed

lemma roundMagnitude_lower:
  assumes "0 \<le> a" "a < 2 ^ 2101" "- 1022 < exponentOf a"
  shows "2 powi (exponentOf a) \<le> roundMagnitude a"
proof -
  define u :: real where "u = 2 powi (exponentOf a - 52)"
  have u: "0 < u" by (simp add: u_def)
  have "real_of_int (2 ^ 52) \<le> real_of_int (significand a)"
    using significand_lower [OF assms] by linarith
  then have "real_of_int (2 ^ 52) * u \<le> real_of_int (significand a) * u"
    using u by (intro mult_right_mono) simp_all
  moreover have "real_of_int (2 ^ 52) * u = 2 powi (exponentOf a)"
    unfolding u_def using ulp_52 [of "exponentOf a"] by (simp add: mult.commute)
  ultimately have "2 powi (exponentOf a) \<le> real_of_int (significand a) * u" by linarith
  then show ?thesis unfolding roundMagnitude_def u_def .
qed

lemma exponent_mono:
  assumes "0 \<le> a" "a \<le> b" "b < 2 ^ 2101"
  shows "exponentOf a \<le> exponentOf b"
proof (rule ccontr)
  assume "\<not> exponentOf a \<le> exponentOf b"
  then have less: "exponentOf b + 1 \<le> exponentOf a" by simp
  have a: "a < 2 ^ 2101" and b: "0 \<le> b" using assms by simp_all
  have "- 1022 \<le> exponentOf b" by (rule exponent_spec(1) [OF b assms(3)])
  with less have "- 1022 < exponentOf a" by simp
  then have "2 powi (exponentOf a) \<le> a" by (rule exponent_spec(3) [OF assms(1) a])
  also have "a \<le> b" by fact
  also have "b < 2 powi (exponentOf b + 1)" by (rule exponent_spec(2) [OF b assms(3)])
  also have "\<dots> \<le> 2 powi (exponentOf a)"
    using less by (intro power_int_increasing) simp_all
  finally show False by simp
qed

lemma significand_mono:
  assumes "0 \<le> a" "a \<le> b" "exponentOf a = exponentOf b"
  shows "significand a \<le> significand b"
proof -
  define u :: real where "u = 2 powi (exponentOf b - 52)"
  have u: "0 < u" by (simp add: u_def)
  have "a / u \<le> b / u" using assms(2) u by (simp add: divide_right_mono)
  then have "roundEven (a / u) \<le> roundEven (b / u)" by (rule roundEven_mono)
  then show ?thesis using assms(3) by (simp add: significand_def u_def)
qed

lemma roundMagnitude_mono:
  assumes "0 \<le> a" "a \<le> b" "b < 2 ^ 2101"
  shows "roundMagnitude a \<le> roundMagnitude b"
proof -
  have a: "a < 2 ^ 2101" and b: "0 \<le> b" using assms by simp_all
  from exponent_mono [OF assms] consider
    "exponentOf a = exponentOf b" | "exponentOf a + 1 \<le> exponentOf b"
    by linarith
  then show ?thesis
  proof cases
    case 1
    define u :: real where "u = 2 powi (exponentOf b - 52)"
    have u: "0 < u" by (simp add: u_def)
    have "real_of_int (significand a) \<le> real_of_int (significand b)"
      using significand_mono [OF assms(1,2) 1] by linarith
    then have "real_of_int (significand a) * u \<le> real_of_int (significand b) * u"
      using u by (intro mult_right_mono) simp_all
    then show ?thesis using 1 by (simp add: roundMagnitude_def u_def)
  next
    case 2
    have "- 1022 \<le> exponentOf a" by (rule exponent_spec(1) [OF assms(1) a])
    with 2 have low: "- 1022 < exponentOf b" by simp
    have "roundMagnitude a \<le> 2 powi (exponentOf a + 1)"
      by (rule roundMagnitude_upper [OF assms(1) a])
    also have "\<dots> \<le> 2 powi (exponentOf b)"
      using 2 by (intro power_int_increasing) simp_all
    also have "\<dots> \<le> roundMagnitude b" by (rule roundMagnitude_lower [OF b assms(3) low])
    finally show ?thesis .
  qed
qed

lemma overflows_huge: "2 ^ 2101 \<le> a \<Longrightarrow> overflows a"
  using exponent_huge [of a] by (simp add: overflows_def)

lemma overflows_mono:
  assumes "0 \<le> a" "a \<le> b" "\<not> overflows b"
  shows "\<not> overflows a"
proof -
  have b: "b < 2 ^ 2101" using assms(3) overflows_huge [of b] by fastforce
  have a: "a < 2 ^ 2101" using assms(2) b by simp
  have le: "exponentOf a \<le> exponentOf b" by (rule exponent_mono [OF assms(1,2) b])
  have eb: "exponentOf b \<le> 1023" using assms(3) by (simp add: overflows_def)
  show ?thesis
  proof (cases "exponentOf a = 1023")
    case False
    with le eb show ?thesis by (simp add: overflows_def)
  next
    case True
    with le eb have same: "exponentOf a = exponentOf b" by simp
    have "significand b \<noteq> 2 ^ 53" using assms(3) same True by (simp add: overflows_def)
    moreover have "significand b \<le> 2 ^ 53"
      using assms(1,2) by (intro significand_upper b) simp
    moreover have "significand a \<le> significand b"
      by (rule significand_mono [OF assms(1,2) same])
    ultimately have "significand a \<noteq> 2 ^ 53" by linarith
    with True show ?thesis by (simp add: overflows_def)
  qed
qed

lemma roundMagnitude_nonneg: "0 \<le> a \<Longrightarrow> 0 \<le> roundMagnitude a"
proof -
  assume "0 \<le> a"
  then have "0 \<le> a / 2 powi (exponentOf a - 52)" by simp
  then have "0 \<le> roundEven (a / 2 powi (exponentOf a - 52))"
    using roundEven_ge [of 0] by simp
  then show ?thesis by (simp add: roundMagnitude_def significand_def)
qed

lemma roundEven_zero [simp]: "roundEven 0 = 0"
  using roundEven_int [of 0] by simp

lemma exponent_zero: "exponentOf 0 = - 1022"
proof -
  have "- 1022 \<le> exponentOf 0" by (rule exponent_spec(1)) simp_all
  moreover have "\<not> - 1022 < exponentOf 0"
  proof
    assume "- 1022 < exponentOf 0"
    then have "2 powi (exponentOf 0) \<le> (0::real)" by (intro exponent_spec(3)) simp_all
    moreover have "(0::real) < 2 powi (exponentOf 0)" by simp
    ultimately show False by linarith
  qed
  ultimately show ?thesis by simp
qed

lemma fl_zero: "fl 0 = Num 0"
  by (simp add: fl_def overflows_def roundMagnitude_def significand_def exponent_zero)

lemma fl_positive:
  "0 < x \<Longrightarrow> fl x = (if overflows x then PosInfinity else Num (roundMagnitude x))"
  by (simp add: fl_def)

lemma fl_nonpositive:
  "x \<le> 0 \<Longrightarrow> fl x = (if overflows (- x) then NegInfinity else Num (- roundMagnitude (- x)))"
  by (simp add: fl_def)

lemma fl_not_NaN: "fl x \<noteq> NaN"
  by (simp add: fl_def)

lemma fl_mono:
  assumes "x \<le> y"
  shows "js_le (fl x) (fl y)"
proof -
  consider "0 < x" | "x \<le> 0" "0 < y" | "y \<le> 0" by linarith
  then show ?thesis
  proof cases
    case 1
    then have y: "0 < y" using assms by simp
    show ?thesis
    proof (cases "overflows y")
      case True
      then show ?thesis using 1 y by (simp add: fl_positive)
    next
      case False
      have x: "\<not> overflows x" using 1 assms False by (intro overflows_mono [of x y]) simp_all
      have "y < 2 ^ 2101" using False overflows_huge [of y] by fastforce
      then have "roundMagnitude x \<le> roundMagnitude y"
        using 1 assms by (intro roundMagnitude_mono) simp_all
      then show ?thesis using 1 y x False by (simp add: fl_positive)
    qed
  next
    case 2
    have "0 \<le> roundMagnitude (- x)" "0 \<le> roundMagnitude y"
      using 2 by (simp_all add: roundMagnitude_nonneg)
    then show ?thesis using 2 by (simp add: fl_positive fl_nonpositive)
  next
    case 3
    then have x: "x \<le> 0" using assms by simp
    show ?thesis
    proof (cases "overflows (- x)")
      case True
      then show ?thesis using 3 x by (simp add: fl_nonpositive)
    next
      case False
      have y: "\<not> overflows (- y)"
        using 3 assms False by (intro overflows_mono [of "- y" "- x"]) simp_all
      have "- x < 2 ^ 2101" using False overflows_huge [of "- x"] by fastforce
      then have "roundMagnitude (- y) \<le> roundMagnitude (- x)"
        using 3 assms by (intro roundMagnitude_mono) simp_all
      then show ?thesis using 3 x y False by (simp add: fl_nonpositive)
    qed
  qed
qed

lemma fl_nonneg: "0 \<le> x \<Longrightarrow> js_le (Num 0) (fl x)"
  using fl_mono [of 0 x] by (simp add: fl_zero)

lemma js_le_not_NaN: "js_le x y \<Longrightarrow> x \<noteq> NaN \<and> y \<noteq> NaN"
  by (cases x; cases y) simp_all

lemma double_div_mono:
  assumes "js_le x y" "0 < b"
  shows "js_le (double_div x (Num b)) (double_div y (Num b))"
proof (cases x; cases y)
  fix a a' assume xy: "x = Num a" "y = Num a'"
  with assms have "a / b \<le> a' / b" by (simp add: divide_right_mono)
  then show ?thesis using xy assms(2) by (simp add: fl_mono)
next
  fix a assume xy: "x = Num a" "y = PosInfinity"
  have "fl (a / b) \<noteq> NaN" "fl (a / b) \<noteq> NegInfinity \<or> True" by (simp_all add: fl_not_NaN)
  then show ?thesis using xy assms(2) by (cases "fl (a / b)") (simp_all add: signedInfinity_def)
next
  fix a' assume xy: "x = NegInfinity" "y = Num a'"
  have "fl (a' / b) \<noteq> NaN" by (simp add: fl_not_NaN)
  then show ?thesis using xy assms(2) by (cases "fl (a' / b)") (simp_all add: signedInfinity_def)
qed (use assms in \<open>simp_all add: signedInfinity_def\<close>)

lemma double_add_mono:
  assumes "js_le x y"
  shows "js_le (double_add (Num t) x) (double_add (Num t) y)"
proof (cases x; cases y)
  fix a a' assume xy: "x = Num a" "y = Num a'"
  with assms have "t + a \<le> t + a'" by simp
  then show ?thesis using xy by (simp add: fl_mono)
next
  fix a assume xy: "x = Num a" "y = PosInfinity"
  have "fl (t + a) \<noteq> NaN" by (simp add: fl_not_NaN)
  then show ?thesis using xy by (cases "fl (t + a)") simp_all
next
  fix a' assume xy: "x = NegInfinity" "y = Num a'"
  have "fl (t + a') \<noteq> NaN" by (simp add: fl_not_NaN)
  then show ?thesis using xy by (cases "fl (t + a')") simp_all
qed (use assms in simp_all)

lemma fl_overflow:
  assumes "2 ^ 1024 \<le> x"
  shows "fl x = PosInfinity"
proof -
  have "(1::real) \<le> 2 ^ 1024" by simp
  with assms have one: "1 \<le> x" by linarith
  from binade_lower [OF one assms, of 2100 0] have "1024 \<le> exponentOf x"
    by (simp add: exponentOf_def)
  then have "overflows x" by (simp add: overflows_def)
  moreover have "0 < x" using one by simp
  ultimately show ?thesis by (simp add: fl_positive)
qed

lemma fl_gravity: "fl 386.4 = Num (3398810343781171 / 8796093022208)"
  by code_simp

lemma double_mul_NaN: "double_mul x NaN = NaN"
  by (cases x) simp_all

section \<open>Tension of a gauge\<close>

text \<open>C2: for a gauge of the class's unit-weight table, \<open>calcTension\<close> is the formula
  \<open>(2 * scale * freq)\<^sup>2 * \<mu> / 386.4\<close> at the unit weight \<open>\<mu>\<close> stored for the gauge.\<close>

theorem calcTension_formula:
  "unitWeights c st gauge = Some mu \<Longrightarrow>
   calcTension c gauge st scale freq = (2 * scale * freq)\<^sup>2 * mu / 386.4"
  by (simp add: calcTension_def tensionFromMu_def)

theorem calcTension_formula_witness:
  "unitWeights sampleConstants P 0.010 = Some 0.00002215 \<and>
   calcTension sampleConstants 0.010 P 25.5 330 = (2 * 25.5 * 330)\<^sup>2 * 0.00002215 / 386.4"
  using calcTension_formula [of sampleConstants P "0.010" "0.00002215" "25.5" 330]
    sample_plain_010 by simp

lemma tensionFromMuDouble_zero:
  "tensionFromMuDouble (Num 0) scale freq =
     (case double_square (double_mul (double_mul (Num 2) scale) freq) of
        Num p \<Rightarrow> Num 0 | PosInfinity \<Rightarrow> NaN | NegInfinity \<Rightarrow> NaN | NaN \<Rightarrow> NaN)"
  unfolding tensionFromMuDouble_def fl_gravity
  by (cases "double_square (double_mul (double_mul (Num 2) scale) freq)")
    (simp_all add: fl_zero)

lemma sample_product_1: "double_mul (Num 2) (Num 25.5) = Num 51"
  by code_simp

lemma sample_product_2: "double_mul (Num 51) (Num 330) = Num 16830"
  by code_simp

lemma sample_product_3: "double_mul (Num 16830) (Num 16830) = Num 283248900"
  by code_simp

lemma sample_square:
  "double_square (double_mul (double_mul (Num 2) (Num 25.5)) (Num 330)) = Num 283248900"
  unfolding double_square_def sample_product_1 sample_product_2 sample_product_3 ..

lemma sample_overflow: "double_mul (Num 2) (Num (2 ^ 1023)) = PosInfinity"
proof -
  have "(2::real) * 2 ^ 1023 = 2 ^ 1024" by simp
  then show ?thesis by (simp add: fl_overflow del: power_numeral)
qed

text \<open>
  The frequency of a note that \<^verbatim>\<open>noteToFreq\<close> does not recognize is \<^verbatim>\<open>NaN\<close>, and so is the
  scale of a cleared input field; \<^verbatim>\<open>NaN\<close> times the unit weight zero is \<^verbatim>\<open>NaN\<close>, not zero.
  So is an infinity times zero: already \<^verbatim>\<open>2 * scale\<close> overflows for the scale \<open>2 ^ 1023\<close>.
\<close>

theorem calcTensionDouble_missing_gauge_counterexample:
  "unitWeights sampleConstants P 0.0105 = None \<and>
   calcTensionDouble sampleConstants 0.0105 P (Num 25.5) NaN = NaN \<and>
   calcTensionDouble sampleConstants 0.0105 P NaN (Num 330) = NaN \<and>
   calcTensionDouble sampleConstants 0.0105 P (Num (2 ^ 1023)) (Num 440) = NaN"
proof -
  have "calcTensionDouble sampleConstants 0.0105 P (Num 25.5) NaN = NaN"
    unfolding calcTensionDouble_def Let_def tensionFromMuDouble_def double_square_def
      double_mul_NaN by simp
  moreover have "calcTensionDouble sampleConstants 0.0105 P NaN (Num 330) = NaN"
    unfolding calcTensionDouble_def Let_def tensionFromMuDouble_def double_square_def
    by simp
  moreover have "calcTensionDouble sampleConstants 0.0105 P (Num (2 ^ 1023)) (Num 440) = NaN"
    unfolding calcTensionDouble_def Let_def tensionFromMuDouble_def double_square_def
      sample_overflow sample_plain_0105
    by (simp add: signedInfinity_def)
  ultimately show ?thesis using sample_plain_0105 by simp
qed

text \<open>C6, amended: for a gauge that is not a key of the class's unit-weight table,
  \<open>calcTensionDouble\<close> has no failing branch, and it returns 0 exactly when the square
  \<^verbatim>\<open>Math.pow(2 * scale * freq, 2)\<close> is finite, that is, when the scale and the frequency
  are finite numbers and neither the product nor its square overflows; for every other
  scale and frequency it returns \<^verbatim>\<open>NaN\<close>.\<close>

theorem calcTensionDouble_missing_gauge:
  assumes "unitWeights c st gauge = None"
  shows "calcTensionDouble c gauge st scale freq =
           (case double_square (double_mul (double_mul (Num 2) scale) freq) of
              Num p \<Rightarrow> Num 0 | PosInfinity \<Rightarrow> NaN | NegInfinity \<Rightarrow> NaN | NaN \<Rightarrow> NaN)"
  using assms by (simp add: calcTensionDouble_def tensionFromMuDouble_zero)

theorem calcTensionDouble_missing_gauge_witness:
  "unitWeights sampleConstants P 0.0105 = None \<and>
   calcTensionDouble sampleConstants 0.0105 P (Num 25.5) (Num 330) = Num 0"
  using calcTensionDouble_missing_gauge [of sampleConstants P "0.0105" "Num 25.5" "Num 330"]
    sample_plain_0105 sample_square by simp

section \<open>Scale lengths\<close>

text \<open>C8: with a pair of scales and one string, the only element is
  \<open>treble + (bass - treble) * 0 / 0\<close>, which is \<^verbatim>\<open>NaN\<close> and not the treble scale.\<close>

theorem resolveScales_pair_one_string: "resolveScales (Pair treble bass) 1 = [NaN]"
  by (simp add: resolveScales_def js_div_def)

lemma resolveScalesDouble_pair:
  "resolveScalesDouble (Pair treble bass) n =
     map (\<lambda>i. double_add (Num treble)
               (double_div (double_mul (double_sub (Num bass) (Num treble)) (Num (real i)))
                  (Num (real n - 1))))
       [0..<n]"
  by (simp add: resolveScalesDouble_def)

lemma interpolation_double_mono:
  assumes "0 \<le> d" "0 < b" "i \<le> j"
  shows "js_le (double_add (Num t) (double_div (double_mul (Num d) (Num (real i))) (Num b)))
               (double_add (Num t) (double_div (double_mul (Num d) (Num (real j))) (Num b)))"
proof -
  have "d * real i \<le> d * real j" using assms(1,3) by (intro mult_left_mono) simp_all
  then have "js_le (double_mul (Num d) (Num (real i))) (double_mul (Num d) (Num (real j)))"
    by (simp add: fl_mono)
  then show ?thesis by (intro double_add_mono double_div_mono assms(2))
qed

lemma fl_308: "fl 30.8 = Num (8669429282688205 / 281474976710656)"
  by code_simp

lemma isDouble_20: "isDouble 20"
  by code_simp

lemma isDouble_308: "isDouble (8669429282688205 / 281474976710656)"
  by code_simp

lemma sample_diff:
  "double_sub (Num (8669429282688205 / 281474976710656)) (Num 20) =
     Num (3039929748475085 / 281474976710656)"
  by code_simp

lemma sample_diff_times:
  "double_mul (Num (3039929748475085 / 281474976710656)) (Num 3) =
     Num (1139973655678157 / 35184372088832)"
  by code_simp

lemma sample_quotient:
  "double_div (Num (1139973655678157 / 35184372088832)) (Num 3) =
     Num (6079859496950171 / 562949953421312)"
  by code_simp

lemma sample_sum:
  "double_add (Num 20) (Num (6079859496950171 / 562949953421312)) =
     Num (4334714641344103 / 140737488355328)"
  by code_simp

lemma sample_last:
  "resolveScalesDouble (Pair 20 (8669429282688205 / 281474976710656)) 4 ! 3 =
     Num (4334714641344103 / 140737488355328)"
proof -
  have "resolveScalesDouble (Pair 20 (8669429282688205 / 281474976710656)) 4 ! 3 =
        double_add (Num 20)
          (double_div
             (double_mul (double_sub (Num (8669429282688205 / 281474976710656)) (Num 20)) (Num 3))
             (Num 3))"
    unfolding resolveScalesDouble_pair
    by (simp del: double_add.simps double_mul.simps)
  also have "\<dots> = Num (4334714641344103 / 140737488355328)"
    unfolding sample_diff sample_diff_times sample_quotient sample_sum ..
  finally show ?thesis .
qed

text \<open>
  The scales \<^verbatim>\<open>[20, 30.8]\<close> on four strings: the double of 30.8 is
  \<open>8669429282688205 / 2 ^ 48\<close>, and the last length is the next double above it,
  \<^verbatim>\<open>30.800000000000004\<close>, because \<^verbatim>\<open>(bass - treble) * 3\<close> is rounded before the division
  by 3.
\<close>

theorem resolveScalesDouble_last_counterexample:
  "fl 30.8 = Num (8669429282688205 / 281474976710656) \<and>
   isDouble 20 \<and> isDouble (8669429282688205 / 281474976710656) \<and>
   resolveScalesDouble (Pair 20 (8669429282688205 / 281474976710656)) 4 ! (4 - 1) =
     Num (4334714641344103 / 140737488355328) \<and>
   Num (4334714641344103 / 140737488355328) \<noteq> Num (8669429282688205 / 281474976710656)"
  using fl_308 isDouble_20 isDouble_308 sample_last by simp

text \<open>C7, amended: for a pair \<open>(treble, bass)\<close> of finite scales whose difference does
  not overflow and at least two strings, \<open>resolveScalesDouble\<close> returns \<open>n\<close> lengths, the
  one at position \<open>i\<close> being \<^verbatim>\<open>treble + (bass - treble) * i / (n - 1)\<close> as the doubles compute
  it, every operation rounded; the first is \<open>treble\<close>, and the lengths are non-decreasing
  when \<open>treble \<le> bass\<close>.  The last one is the rounded value of the expression at \<open>n - 1\<close>,
  which need not be \<open>bass\<close>.  For a single scale the result is that scale repeated, for
  every count.\<close>

theorem resolveScalesDouble_interpolation:
  assumes "2 \<le> n" "isDouble treble" "double_sub (Num bass) (Num treble) = Num d"
  shows "resolveScalesDouble (Pair treble bass) n =
           map (\<lambda>i. double_add (Num treble)
                     (double_div (double_mul (Num d) (Num (real i))) (Num (real n - 1))))
             [0..<n] \<and>
         length (resolveScalesDouble (Pair treble bass) n) = n \<and>
         resolveScalesDouble (Pair treble bass) n ! 0 = Num treble \<and>
         (treble \<le> bass \<longrightarrow>
            (\<forall>i j. i \<le> j \<and> j < n \<longrightarrow>
               js_le (resolveScalesDouble (Pair treble bass) n ! i)
                     (resolveScalesDouble (Pair treble bass) n ! j))) \<and>
         resolveScalesDouble (Single s) m = replicate m (Num s)"
proof -
  have eq: "resolveScalesDouble (Pair treble bass) n =
           map (\<lambda>i. double_add (Num treble)
                     (double_div (double_mul (Num d) (Num (real i))) (Num (real n - 1))))
             [0..<n]"
    by (simp add: resolveScalesDouble_pair assms(3))
  have len: "length (resolveScalesDouble (Pair treble bass) n) = n"
    by (simp add: eq)
  have n1: "0 < real n - 1" using assms(1) by auto
  have nth: "\<And>i. i < n \<Longrightarrow> resolveScalesDouble (Pair treble bass) n ! i =
      double_add (Num treble) (double_div (double_mul (Num d) (Num (real i))) (Num (real n - 1)))"
    by (simp add: eq)
  have first: "resolveScalesDouble (Pair treble bass) n ! 0 = Num treble"
  proof -
    have "0 < n" using assms(1) by simp
    from nth [OF this] show ?thesis
      using n1 assms(2) by (simp add: fl_zero isDouble_def)
  qed
  have mono: "treble \<le> bass \<longrightarrow>
            (\<forall>i j. i \<le> j \<and> j < n \<longrightarrow>
               js_le (resolveScalesDouble (Pair treble bass) n ! i)
                     (resolveScalesDouble (Pair treble bass) n ! j))"
  proof (intro impI allI)
    fix i j assume le: "treble \<le> bass" and ij: "i \<le> j \<and> j < n"
    have "fl (bass + - treble) = Num d" using assms(3) by (simp add: double_sub_def)
    moreover have "js_le (Num 0) (fl (bass + - treble))" using le by (intro fl_nonneg) simp
    ultimately have d: "0 \<le> d" by simp
    from ij have "i < n" "j < n" by simp_all
    then show "js_le (resolveScalesDouble (Pair treble bass) n ! i)
                     (resolveScalesDouble (Pair treble bass) n ! j)"
      using interpolation_double_mono [OF d n1, of i j treble] ij by (simp add: nth)
  qed
  have single: "resolveScalesDouble (Single s) m = replicate m (Num s)"
    by (simp add: resolveScalesDouble_def)
  from eq len first mono single show ?thesis by blast
qed

lemma isDouble_255: "isDouble 25.5"
  by code_simp

lemma sample_double_diff: "double_sub (Num 27) (Num 25.5) = Num 1.5"
  by code_simp

theorem resolveScalesDouble_interpolation_witness:
  "(2::nat) \<le> 6 \<and> isDouble 25.5 \<and> double_sub (Num 27) (Num 25.5) = Num 1.5 \<and>
   length (resolveScalesDouble (Pair 25.5 27) 6) = 6 \<and>
   resolveScalesDouble (Pair 25.5 27) 6 ! 0 = Num 25.5 \<and>
   js_le (resolveScalesDouble (Pair 25.5 27) 6 ! 2) (resolveScalesDouble (Pair 25.5 27) 6 ! 3) \<and>
   resolveScalesDouble (Single 25.5) 3 = [Num 25.5, Num 25.5, Num 25.5]"
proof -
  have h: "(2::nat) \<le> 6" by simp
  have le: "(25.5::real) \<le> 27" by simp
  note main = resolveScalesDouble_interpolation [OF h isDouble_255 sample_double_diff,
      of "25.5" 3]
  from main have "length (resolveScalesDouble (Pair 25.5 27) 6) = 6" by blast
  moreover from main have "resolveScalesDouble (Pair 25.5 27) 6 ! 0 = Num 25.5" by blast
  moreover from main le have mono: "\<forall>i j. i \<le> j \<and> j < 6 \<longrightarrow>
      js_le (resolveScalesDouble (Pair 25.5 27) 6 ! i) (resolveScalesDouble (Pair 25.5 27) 6 ! j)"
    by blast
  have "js_le (resolveScalesDouble (Pair 25.5 27) 6 ! 2) (resolveScalesDouble (Pair 25.5 27) 6 ! 3)"
  proof -
    have "(2::nat) \<le> 3 \<and> (3::nat) < 6" by simp
    with mono show ?thesis by blast
  qed
  moreover from main have "resolveScalesDouble (Single 25.5) 3 = replicate 3 (Num 25.5)"
    by blast
  then have "resolveScalesDouble (Single 25.5) 3 = [Num 25.5, Num 25.5, Num 25.5]"
    by (simp add: numeral_3_eq_3)
  ultimately show ?thesis using h isDouble_255 sample_double_diff by simp
qed

section \<open>String types\<close>

theorem resolveStringTypes_count_counterexample:
  "resolveStringTypes (Some [P]) 6 = [P] \<and> length (resolveStringTypes (Some [P]) 6) \<noteq> 6"
  by (simp add: resolveStringTypes_def)

text \<open>C9, amended: an override that is present is returned verbatim, so the result has
  \<open>n\<close> tags exactly when the override has; with no override the result has \<open>n\<close> tags,
  plain at the positions 0, 1, 2 and wound at every position from 3 on.\<close>

theorem resolveStringTypes_spec:
  "resolveStringTypes (Some ts) n = ts \<and>
   (length (resolveStringTypes (Some ts) n) = n \<longleftrightarrow> length ts = n) \<and>
   length (resolveStringTypes None n) = n \<and>
   (\<forall>i<n. resolveStringTypes None n ! i = (if i < 3 then P else W))"
  by (simp add: resolveStringTypes_def)

theorem resolveStringTypes_spec_witness:
  "resolveStringTypes (Some [W, P]) 2 = [W, P] \<and>
   length (resolveStringTypes None 6) = 6 \<and>
   resolveStringTypes None 6 ! 2 = P \<and> resolveStringTypes None 6 ! 3 = W"
  using resolveStringTypes_spec [of "[W, P]" 2] resolveStringTypes_spec [of "[]" 6]
  by simp

section \<open>Note names to frequencies\<close>

lemma digitOf_cases:
  "digitOf d = Some k \<Longrightarrow> d \<in> set ''0123456789''"
  by (simp add: digitOf_def split: if_splits)

lemma parseInt_digit: "digitOf d = Some k \<Longrightarrow> parseInt [d] = Num (real k)"
  by (frule digitOf_cases) (auto simp: parseInt_def isSpace_def Let_def)

lemma parseInt_non_digit: "digitOf d = None \<Longrightarrow> parseInt [d] = NaN"
  by (auto simp: parseInt_def Let_def)

theorem noteToFreq_no_error_counterexample:
  "noteToFreq sampleConstants ''H4'' = NaN \<and> noteToFreq sampleConstants ''E?'' = NaN"
  by (simp add: noteToFreq_def sampleConstants_def parseInt_def digitOf_def isSpace_def)

text \<open>C4, amended: for a token whose name part (all but the last character) is neither a
  key of the note index nor a flat spelling, or whose last character does not parse as an
  integer, \<open>noteToFreq\<close> raises nothing and returns \<^verbatim>\<open>NaN\<close>.\<close>

theorem noteToFreq_invalid:
  "take (length note - 1) note \<notin> dom (NOTE_INDEX c) \<union> dom (FLAT_TO_SHARP c) \<or>
   parseInt (drop (length note - 1) note) = NaN \<Longrightarrow>
   noteToFreq c note = NaN"
  by (auto simp: noteToFreq_def Let_def split: option.splits number.splits)

theorem noteToFreq_invalid_witness:
  "noteToFreq sampleConstants ''X2'' = NaN \<and> noteToFreq sampleConstants ''G#b'' = NaN"
proof -
  have "take (length ''X2'' - 1) ''X2''
        \<notin> dom (NOTE_INDEX sampleConstants) \<union> dom (FLAT_TO_SHARP sampleConstants)"
    by (simp add: sampleConstants_def dom_def)
  then have a: "noteToFreq sampleConstants ''X2'' = NaN"
    using noteToFreq_invalid [of "''X2''" sampleConstants] by blast
  have "parseInt (drop (length ''G#b'' - 1) ''G#b'') = NaN"
    by (simp add: parseInt_def digitOf_def isSpace_def)
  then have b: "noteToFreq sampleConstants ''G#b'' = NaN"
    using noteToFreq_invalid [of "''G#b''" sampleConstants] by blast
  from a b show ?thesis by simp
qed

text \<open>C10: the octave of a token is its last character alone and the note name is
  everything before it.  When the last character is the digit \<open>k\<close>, the result is computed
  from the index of the (sharpened) name before it and the octave \<open>k\<close>, also when that
  name itself ends in a digit, as \<open>E1\<close> does in \<open>E10\<close>; when it is not a digit the
  result is \<^verbatim>\<open>NaN\<close>.\<close>

theorem noteToFreq_last_character:
  "(digitOf d = Some k \<longrightarrow>
      noteToFreq c (name @ [d]) =
        (case NOTE_INDEX c (case FLAT_TO_SHARP c name of Some sharp \<Rightarrow> sharp | None \<Rightarrow> name) of
           None \<Rightarrow> NaN
         | Some idx \<Rightarrow> Num (A4 c * 2 powr ((idx + (real k - 4) * 12) / 12)))) \<and>
   (digitOf d = None \<longrightarrow> noteToFreq c (name @ [d]) = NaN)"
  by (auto simp: noteToFreq_def Let_def parseInt_digit parseInt_non_digit split: option.splits)

theorem noteToFreq_last_character_witness:
  "digitOf (CHR ''0'') = Some 0 \<and> noteToFreq sampleConstants ''E10'' = NaN \<and>
   digitOf (CHR ''5'') = Some 5 \<and> noteToFreq sampleConstants ''A5'' = Num 880"
proof -
  have d0: "digitOf (CHR ''0'') = Some 0" and d5: "digitOf (CHR ''5'') = Some 5"
    by (simp_all add: digitOf_def)
  have a: "noteToFreq sampleConstants ''E10'' = NaN"
    using noteToFreq_last_character [of "CHR ''0''" 0 sampleConstants "''E1''"] d0
    by (simp add: sampleConstants_def)
  have b: "noteToFreq sampleConstants ''A5'' = Num 880"
    using noteToFreq_last_character [of "CHR ''5''" 5 sampleConstants "''A''"] d5
    by (simp add: sampleConstants_def)
  from d0 d5 a b show ?thesis by simp
qed

section \<open>The recommended gauge\<close>

lemma lookupTension_calcTension:
  "unitWeights c st g \<noteq> None \<Longrightarrow>
   lookupTension (unitWeights c st) g scale freq = Num (calcTension c g st scale freq)"
  by (auto simp: lookupTension_def calcTension_def tensionFromMu_def)

lemma inRangeGauges_filter:
  "\<forall>g\<in>set gs. lookupTension table g scale freq = Num (T g) \<Longrightarrow>
   inRangeGauges table scale freq minT maxT gs =
     map (\<lambda>g. (g, T g)) (filter (\<lambda>g. minT \<le> T g \<and> T g \<le> maxT) gs)"
  by (induction gs) auto

lemma closestInRange_spec:
  "closestInRange m (bg, be) ys = (rg, re) \<Longrightarrow>
   ((rg, re) = (bg, be) \<and> (\<forall>(g, a)\<in>set ys. be \<le> \<bar>a - m\<bar>)) \<or>
   (\<exists>pre a post. ys = pre @ (rg, a) # post \<and> re = \<bar>a - m\<bar> \<and> re < be \<and>
      (\<forall>(g', a')\<in>set pre. re < \<bar>a' - m\<bar>) \<and> (\<forall>(g', a')\<in>set post. re \<le> \<bar>a' - m\<bar>))"
proof (induction ys arbitrary: bg be)
  case Nil
  then show ?case by simp
next
  case (Cons y ys)
  obtain g a where y: "y = (g, a)" by (cases y)
  show ?case
  proof (cases "\<bar>a - m\<bar> < be")
    case True
    with Cons.prems y have run: "closestInRange m (g, \<bar>a - m\<bar>) ys = (rg, re)"
      by simp
    from Cons.IH [OF run] show ?thesis
    proof
      assume "(rg, re) = (g, \<bar>a - m\<bar>) \<and> (\<forall>(g, a')\<in>set ys. \<bar>a - m\<bar> \<le> \<bar>a' - m\<bar>)"
      then have "y # ys = [] @ (rg, a) # ys \<and> re = \<bar>a - m\<bar> \<and> re < be \<and>
        (\<forall>(g', a')\<in>set []. re < \<bar>a' - m\<bar>) \<and> (\<forall>(g', a')\<in>set ys. re \<le> \<bar>a' - m\<bar>)"
        using True y by auto
      then show ?thesis by blast
    next
      assume "\<exists>pre a' post. ys = pre @ (rg, a') # post \<and> re = \<bar>a' - m\<bar> \<and> re < \<bar>a - m\<bar> \<and>
        (\<forall>(g', a')\<in>set pre. re < \<bar>a' - m\<bar>) \<and> (\<forall>(g', a')\<in>set post. re \<le> \<bar>a' - m\<bar>)"
      then obtain pre a' post where p: "ys = pre @ (rg, a') # post" "re = \<bar>a' - m\<bar>"
        "re < \<bar>a - m\<bar>" "\<forall>(g', a')\<in>set pre. re < \<bar>a' - m\<bar>"
        "\<forall>(g', a')\<in>set post. re \<le> \<bar>a' - m\<bar>" by blast
      have "y # ys = (y # pre) @ (rg, a') # post \<and> re = \<bar>a' - m\<bar> \<and> re < be \<and>
        (\<forall>(g', a')\<in>set (y # pre). re < \<bar>a' - m\<bar>) \<and> (\<forall>(g', a')\<in>set post. re \<le> \<bar>a' - m\<bar>)"
        using p True y by auto
      then show ?thesis by blast
    qed
  next
    case False
    with Cons.prems y have run: "closestInRange m (bg, be) ys = (rg, re)"
      by simp
    from Cons.IH [OF run] show ?thesis
    proof
      assume "(rg, re) = (bg, be) \<and> (\<forall>(g, a)\<in>set ys. be \<le> \<bar>a - m\<bar>)"
      then show ?thesis using False y by auto
    next
      assume "\<exists>pre a' post. ys = pre @ (rg, a') # post \<and> re = \<bar>a' - m\<bar> \<and> re < be \<and>
        (\<forall>(g', a')\<in>set pre. re < \<bar>a' - m\<bar>) \<and> (\<forall>(g', a')\<in>set post. re \<le> \<bar>a' - m\<bar>)"
      then obtain pre a' post where p: "ys = pre @ (rg, a') # post" "re = \<bar>a' - m\<bar>"
        "re < be" "\<forall>(g', a')\<in>set pre. re < \<bar>a' - m\<bar>"
        "\<forall>(g', a')\<in>set post. re \<le> \<bar>a' - m\<bar>" by blast
      have "y # ys = (y # pre) @ (rg, a') # post \<and> re = \<bar>a' - m\<bar> \<and> re < be \<and>
        (\<forall>(g', a')\<in>set (y # pre). re < \<bar>a' - m\<bar>) \<and> (\<forall>(g', a')\<in>set post. re \<le> \<bar>a' - m\<bar>)"
        using p False y by auto
      then show ?thesis by blast
    qed
  qed
qed

text \<open>Started at the first element of the list, as the source does.\<close>

lemma closestInRange_first:
  assumes "closestInRange m (g0, \<bar>a0 - m\<bar>) ((g0, a0) # ys) = (rg, re)"
  shows "\<exists>pre a post. (g0, a0) # ys = pre @ (rg, a) # post \<and>
      (\<forall>(g', a')\<in>set pre. \<bar>a - m\<bar> < \<bar>a' - m\<bar>) \<and> (\<forall>(g', a')\<in>set post. \<bar>a - m\<bar> \<le> \<bar>a' - m\<bar>)"
proof -
  from closestInRange_spec [OF assms] show ?thesis
  proof
    assume "(rg, re) = (g0, \<bar>a0 - m\<bar>) \<and> (\<forall>(g, a)\<in>set ((g0, a0) # ys). \<bar>a0 - m\<bar> \<le> \<bar>a - m\<bar>)"
    then have "(g0, a0) # ys = [] @ (rg, a0) # ys \<and>
      (\<forall>(g', a')\<in>set []. \<bar>a0 - m\<bar> < \<bar>a' - m\<bar>) \<and> (\<forall>(g', a')\<in>set ys. \<bar>a0 - m\<bar> \<le> \<bar>a' - m\<bar>)"
      by auto
    then show ?thesis by blast
  next
    assume "\<exists>pre a post. (g0, a0) # ys = pre @ (rg, a) # post \<and> re = \<bar>a - m\<bar> \<and> re < \<bar>a0 - m\<bar> \<and>
        (\<forall>(g', a')\<in>set pre. re < \<bar>a' - m\<bar>) \<and> (\<forall>(g', a')\<in>set post. re \<le> \<bar>a' - m\<bar>)"
    then show ?thesis by blast
  qed
qed

lemma closestOverall_spec:
  assumes "\<forall>g\<in>set gs. lookupTension table g scale freq = Num (T g)"
  shows "\<exists>rg re. closestOverall table scale freq m (bg, Num be) gs = (rg, Num re) \<and>
           re \<le> be \<and> (\<forall>g\<in>set gs. re \<le> \<bar>T g - m\<bar>) \<and>
           ((rg, re) = (bg, be) \<or> (rg \<in> set gs \<and> re = \<bar>T rg - m\<bar>))"
  using assms
proof (induction gs arbitrary: bg be)
  case Nil
  then show ?case by simp
next
  case (Cons g gs)
  then have tg: "lookupTension table g scale freq = Num (T g)"
    and rest: "\<forall>g\<in>set gs. lookupTension table g scale freq = Num (T g)" by auto
  show ?case
  proof (cases "\<bar>T g - m\<bar> < be")
    case True
    from Cons.IH [OF rest, of g "\<bar>T g - m\<bar>"] obtain rg re where
      r: "closestOverall table scale freq m (g, Num \<bar>T g - m\<bar>) gs = (rg, Num re)"
         "re \<le> \<bar>T g - m\<bar>" "\<forall>g\<in>set gs. re \<le> \<bar>T g - m\<bar>"
         "(rg, re) = (g, \<bar>T g - m\<bar>) \<or> (rg \<in> set gs \<and> re = \<bar>T rg - m\<bar>)" by blast
    have "closestOverall table scale freq m (bg, Num be) (g # gs) = (rg, Num re)"
      using True tg r(1) by simp
    moreover have "re \<le> be" using r(2) True by simp
    moreover have "\<forall>g'\<in>set (g # gs). re \<le> \<bar>T g' - m\<bar>" using r(2,3) by simp
    moreover have "rg \<in> set (g # gs) \<and> re = \<bar>T rg - m\<bar>" using r(4) by auto
    ultimately show ?thesis by blast
  next
    case False
    from Cons.IH [OF rest, of bg be] obtain rg re where
      r: "closestOverall table scale freq m (bg, Num be) gs = (rg, Num re)"
         "re \<le> be" "\<forall>g\<in>set gs. re \<le> \<bar>T g - m\<bar>"
         "(rg, re) = (bg, be) \<or> (rg \<in> set gs \<and> re = \<bar>T rg - m\<bar>)" by blast
    have "closestOverall table scale freq m (bg, Num be) (g # gs) = (rg, Num re)"
      using False tg r(1) by simp
    moreover have "\<forall>g'\<in>set (g # gs). re \<le> \<bar>T g' - m\<bar>" using r(2,3) False by simp
    moreover have "(rg, re) = (bg, be) \<or> (rg \<in> set (g # gs) \<and> re = \<bar>T rg - m\<bar>)"
      using r(4) by auto
    ultimately show ?thesis using r(2) by blast
  qed
qed

lemma closestOverall_first:
  assumes "\<forall>g\<in>set (g0 # gs). lookupTension table g scale freq = Num (T g)"
  shows "\<exists>rg re. closestOverall table scale freq m (g0, PosInfinity) (g0 # gs) = (rg, re) \<and>
           rg \<in> set (g0 # gs) \<and> (\<forall>g\<in>set (g0 # gs). \<bar>T rg - m\<bar> \<le> \<bar>T g - m\<bar>)"
proof -
  from assms have t0: "lookupTension table g0 scale freq = Num (T g0)"
    and rest: "\<forall>g\<in>set gs. lookupTension table g scale freq = Num (T g)" by auto
  from closestOverall_spec [OF rest, of m g0 "\<bar>T g0 - m\<bar>"] obtain rg re where
    r: "closestOverall table scale freq m (g0, Num \<bar>T g0 - m\<bar>) gs = (rg, Num re)"
       "re \<le> \<bar>T g0 - m\<bar>" "\<forall>g\<in>set gs. re \<le> \<bar>T g - m\<bar>"
       "(rg, re) = (g0, \<bar>T g0 - m\<bar>) \<or> (rg \<in> set gs \<and> re = \<bar>T rg - m\<bar>)" by blast
  have "closestOverall table scale freq m (g0, PosInfinity) (g0 # gs) = (rg, Num re)"
    using t0 r(1) by simp
  moreover have "rg \<in> set (g0 # gs)" using r(4) by auto
  moreover have "re = \<bar>T rg - m\<bar>" using r(4) by auto
  ultimately show ?thesis using r(2,3) by auto
qed


lemma filter_split:
  "filter R gs = fp @ x # fq \<Longrightarrow>
   \<exists>gp gq. gs = gp @ x # gq \<and> filter R gp = fp \<and> filter R gq = fq \<and> R x"
proof (induction gs arbitrary: fp)
  case Nil
  then show ?case by simp
next
  case (Cons g gs)
  show ?case
  proof (cases "R g")
    case False
    with Cons.prems have "filter R gs = fp @ x # fq" by simp
    from Cons.IH [OF this] obtain gp gq where
      "gs = gp @ x # gq" "filter R gp = fp" "filter R gq = fq" "R x" by blast
    then have "g # gs = (g # gp) @ x # gq \<and> filter R (g # gp) = fp \<and> filter R gq = fq \<and> R x"
      using False by simp
    then show ?thesis by blast
  next
    case True
    with Cons.prems have eq: "g # filter R gs = fp @ x # fq" by simp
    show ?thesis
    proof (cases fp)
      case Nil
      with eq have "g = x" "filter R gs = fq" by simp_all
      then have "g # gs = [] @ x # gs \<and> filter R [] = fp \<and> filter R gs = fq \<and> R x"
        using Nil True by simp
      then show ?thesis by blast
    next
      case (Cons f fp')
      with eq have "f = g" "filter R gs = fp' @ x # fq" by simp_all
      from Cons.IH [OF this(2)] obtain gp gq where
        "gs = gp @ x # gq" "filter R gp = fp'" "filter R gq = fq" "R x" by blast
      then have "g # gs = (g # gp) @ x # gq \<and> filter R (g # gp) = fp \<and> filter R gq = fq \<and> R x"
        using True Cons \<open>f = g\<close> by simp
      then show ?thesis by blast
    qed
  qed
qed

text \<open>C1: let every gauge of the class's catalog have a unit weight.  If some catalog
  gauge has its tension in the target range, \<open>recommendGauge\<close> returns a catalog gauge
  whose tension is in the range and is no farther from the midpoint than that of any other
  catalog gauge in range; every such gauge before it in the catalog is strictly farther, so
  a tie goes to the first in catalog order, which is the smallest gauge when the catalog
  is ascending.  If no catalog gauge is in range (and the catalog is not empty), it returns
  a catalog gauge that is no farther from the midpoint than any other catalog gauge.\<close>

theorem recommendGauge_closest:
  assumes weights: "\<forall>g\<in>set (catalog c st). unitWeights c st g \<noteq> None"
  shows "((\<exists>g\<in>set (catalog c st). isInRange (calcTension c g st scale freq) target) \<longrightarrow>
          (\<exists>pre g post. catalog c st = pre @ g # post \<and>
             recommendGauge c st scale freq target = Some g \<and>
             isInRange (calcTension c g st scale freq) target \<and>
             (\<forall>g'\<in>set pre. isInRange (calcTension c g' st scale freq) target \<longrightarrow>
                tensionError c st scale freq target g < tensionError c st scale freq target g') \<and>
             (\<forall>g'\<in>set post. isInRange (calcTension c g' st scale freq) target \<longrightarrow>
                tensionError c st scale freq target g \<le> tensionError c st scale freq target g') \<and>
             (sorted (catalog c st) \<longrightarrow>
                (\<forall>g'\<in>set (catalog c st).
                   isInRange (calcTension c g' st scale freq) target \<and>
                   tensionError c st scale freq target g' = tensionError c st scale freq target g
                   \<longrightarrow> g \<le> g')))) \<and>
         (\<not> (\<exists>g\<in>set (catalog c st). isInRange (calcTension c g st scale freq) target) \<and>
          catalog c st \<noteq> [] \<longrightarrow>
          (\<exists>g\<in>set (catalog c st). recommendGauge c st scale freq target = Some g \<and>
             (\<forall>g'\<in>set (catalog c st).
                tensionError c st scale freq target g \<le> tensionError c st scale freq target g')))"
proof -
  define table where "table = unitWeights c st"
  define gs where "gs = catalog c st"
  define T where "T = (\<lambda>g. calcTension c g st scale freq)"
  define m where "m = (fst target + snd target) / 2"
  define R where "R = (\<lambda>g. fst target \<le> T g \<and> T g \<le> snd target)"
  define E where "E = (\<lambda>g. \<bar>T g - m\<bar>)"
  have look: "\<forall>g\<in>set gs. lookupTension table g scale freq = Num (T g)"
    using weights by (simp add: gs_def table_def T_def lookupTension_calcTension)
  have inr: "inRangeGauges table scale freq (fst target) (snd target) gs
             = map (\<lambda>g. (g, T g)) (filter R gs)"
    unfolding R_def by (rule inRangeGauges_filter [OF look])
  have R_eq: "\<And>g. isInRange (calcTension c g st scale freq) target = R g"
    by (auto simp: isInRange_def R_def T_def)
  have E_eq: "\<And>g. tensionError c st scale freq target g = E g"
    by (simp add: tensionError_def E_def T_def m_def)
  have partA: "(\<exists>g\<in>set gs. R g) \<longrightarrow>
          (\<exists>pre g post. gs = pre @ g # post \<and>
             recommendGauge c st scale freq target = Some g \<and> R g \<and>
             (\<forall>g'\<in>set pre. R g' \<longrightarrow> E g < E g') \<and>
             (\<forall>g'\<in>set post. R g' \<longrightarrow> E g \<le> E g') \<and>
             (sorted gs \<longrightarrow> (\<forall>g'\<in>set gs. R g' \<and> E g' = E g \<longrightarrow> g \<le> g')))"
  proof
    assume "\<exists>g\<in>set gs. R g"
    then have "filter R gs \<noteq> []" by (simp add: filter_empty_conv)
    then obtain g0 fs where fs: "filter R gs = g0 # fs" by (cases "filter R gs") auto
    obtain rg re where run:
      "closestInRange m (g0, \<bar>T g0 - m\<bar>) ((g0, T g0) # map (\<lambda>g. (g, T g)) fs) = (rg, re)"
      by (cases "closestInRange m (g0, \<bar>T g0 - m\<bar>) ((g0, T g0) # map (\<lambda>g. (g, T g)) fs)")
    have rec: "recommendGauge c st scale freq target = Some rg"
      using inr fs run
      by (simp add: recommendGauge_def Let_def table_def [symmetric] gs_def [symmetric]
          m_def [symmetric])
    from closestInRange_first [OF run] obtain pre a post where
      dec: "(g0, T g0) # map (\<lambda>g. (g, T g)) fs = pre @ (rg, a) # post"
      and before: "\<forall>(g', a')\<in>set pre. \<bar>a - m\<bar> < \<bar>a' - m\<bar>"
      and after: "\<forall>(g', a')\<in>set post. \<bar>a - m\<bar> \<le> \<bar>a' - m\<bar>" by blast
    from dec fs have "map (\<lambda>g. (g, T g)) (filter R gs) = pre @ (rg, a) # post" by simp
    then obtain fp fq where fsplit: "filter R gs = fp @ rg # fq"
      and pre: "pre = map (\<lambda>g. (g, T g)) fp" and a: "a = T rg"
      and post: "post = map (\<lambda>g. (g, T g)) fq"
      by (auto simp: map_eq_append_conv map_eq_Cons_conv)
    from filter_split [OF fsplit] obtain gp gq where
      gsplit: "gs = gp @ rg # gq" and fp: "filter R gp = fp" and fq: "filter R gq = fq"
      and Rrg: "R rg" by blast
    have b: "\<forall>g'\<in>set gp. R g' \<longrightarrow> E rg < E g'"
      using before pre a fp by (auto simp: E_def)
    have af: "\<forall>g'\<in>set gq. R g' \<longrightarrow> E rg \<le> E g'"
      using after post a fq by (auto simp: E_def)
    have s: "sorted gs \<longrightarrow> (\<forall>g'\<in>set gs. R g' \<and> E g' = E rg \<longrightarrow> rg \<le> g')"
    proof (intro impI ballI)
      fix g' assume srt: "sorted gs" and g': "g' \<in> set gs" and tie: "R g' \<and> E g' = E rg"
      from g' gsplit have "g' \<in> set gp \<or> g' = rg \<or> g' \<in> set gq" by auto
      then show "rg \<le> g'"
      proof (elim disjE)
        assume "g' \<in> set gp"
        with b tie show ?thesis by force
      next
        assume "g' = rg" then show ?thesis by simp
      next
        assume "g' \<in> set gq"
        with srt gsplit show ?thesis by (simp add: sorted_append)
      qed
    qed
    from gsplit rec Rrg b af s show "\<exists>pre g post. gs = pre @ g # post \<and>
             recommendGauge c st scale freq target = Some g \<and> R g \<and>
             (\<forall>g'\<in>set pre. R g' \<longrightarrow> E g < E g') \<and>
             (\<forall>g'\<in>set post. R g' \<longrightarrow> E g \<le> E g') \<and>
             (sorted gs \<longrightarrow> (\<forall>g'\<in>set gs. R g' \<and> E g' = E g \<longrightarrow> g \<le> g'))"
      by blast
  qed
  have partB: "\<not> (\<exists>g\<in>set gs. R g) \<and> gs \<noteq> [] \<longrightarrow>
          (\<exists>g\<in>set gs. recommendGauge c st scale freq target = Some g \<and>
             (\<forall>g'\<in>set gs. E g \<le> E g'))"
  proof
    assume h: "\<not> (\<exists>g\<in>set gs. R g) \<and> gs \<noteq> []"
    then have empty: "filter R gs = []" by (simp add: filter_empty_conv)
    from h obtain g0 rest where gs: "gs = g0 # rest" by (cases gs) auto
    from closestOverall_first [of g0 rest table scale freq T m] look gs obtain rg re where
      run: "closestOverall table scale freq m (g0, PosInfinity) (g0 # rest) = (rg, re)"
      and mem: "rg \<in> set (g0 # rest)"
      and best: "\<forall>g\<in>set (g0 # rest). \<bar>T rg - m\<bar> \<le> \<bar>T g - m\<bar>" by auto
    have rec: "recommendGauge c st scale freq target = Some rg"
      using inr empty run gs
      by (simp add: recommendGauge_def Let_def table_def [symmetric] gs_def [symmetric]
          m_def [symmetric])
    from rec mem best gs show "\<exists>g\<in>set gs. recommendGauge c st scale freq target = Some g \<and>
             (\<forall>g'\<in>set gs. E g \<le> E g')"
      by (auto simp: E_def)
  qed
  from partA partB show ?thesis
    unfolding R_eq E_eq gs_def by blast
qed


lemma sample_catalog_plain: "catalog sampleConstants P = [0.009, 0.010, 0.011]"
  by (simp add: catalog_def sampleConstants_def)

lemma sample_plain_weights:
  "\<forall>g\<in>set (catalog sampleConstants P). unitWeights sampleConstants P g \<noteq> None"
  by (simp add: catalog_def unitWeights_def sampleConstants_def del: not_None_eq)

lemma sample_recommend_in_range:
  "recommendGauge sampleConstants P 25.5 330 (16, 17) = Some 0.010"
  by (simp add: recommendGauge_def catalog_def unitWeights_def sampleConstants_def
      lookupTension_def tensionFromMu_def power2_eq_square)

lemma sample_recommend_fallback:
  "recommendGauge sampleConstants P 25.5 330 (30, 40) = Some 0.011"
  by (simp add: recommendGauge_def catalog_def unitWeights_def sampleConstants_def
      lookupTension_def tensionFromMu_def power2_eq_square)

theorem recommendGauge_closest_witness:
  "catalog sampleConstants P = [0.009, 0.010, 0.011] \<and>
   recommendGauge sampleConstants P 25.5 330 (16, 17) = Some 0.010 \<and>
   isInRange (calcTension sampleConstants 0.010 P 25.5 330) (16, 17) \<and>
   recommendGauge sampleConstants P 25.5 330 (30, 40) = Some 0.011 \<and>
   tensionError sampleConstants P 25.5 330 (30, 40) 0.011
     \<le> tensionError sampleConstants P 25.5 330 (30, 40) 0.009"
proof -
  note main = recommendGauge_closest [OF sample_plain_weights]
  have "isInRange (calcTension sampleConstants 0.010 P 25.5 330) (16, 17)"
    by (simp add: isInRange_def calcTension_def unitWeights_def sampleConstants_def
        tensionFromMu_def power2_eq_square)
  then have ex: "\<exists>g\<in>set (catalog sampleConstants P).
      isInRange (calcTension sampleConstants g P 25.5 330) (16, 17)"
    unfolding sample_catalog_plain by simp
  from main [of "25.5" 330 "(16, 17)"] ex obtain g where
    g: "recommendGauge sampleConstants P 25.5 330 (16, 17) = Some g"
       "isInRange (calcTension sampleConstants g P 25.5 330) (16, 17)" by blast
  have "g = 0.010" using g(1) unfolding sample_recommend_in_range by simp
  with g(2) have a: "isInRange (calcTension sampleConstants 0.010 P 25.5 330) (16, 17)"
    by simp
  have none: "\<not> (\<exists>g\<in>set (catalog sampleConstants P).
      isInRange (calcTension sampleConstants g P 25.5 330) (30, 40))"
    by (simp add: catalog_def isInRange_def calcTension_def unitWeights_def
        sampleConstants_def tensionFromMu_def power2_eq_square)
  have "catalog sampleConstants P \<noteq> []" by (simp add: sample_catalog_plain)
  with main [of "25.5" 330 "(30, 40)"] none obtain g' where
    g': "recommendGauge sampleConstants P 25.5 330 (30, 40) = Some g'"
    "\<forall>h\<in>set (catalog sampleConstants P).
       tensionError sampleConstants P 25.5 330 (30, 40) g'
       \<le> tensionError sampleConstants P 25.5 330 (30, 40) h" by blast
  have "g' = 0.011" using g'(1) unfolding sample_recommend_fallback by simp
  moreover have "0.009 \<in> set (catalog sampleConstants P)"
    unfolding sample_catalog_plain by simp
  ultimately have b: "tensionError sampleConstants P 25.5 330 (30, 40) 0.011
     \<le> tensionError sampleConstants P 25.5 330 (30, 40) 0.009"
    using g'(2) by blast
  from sample_catalog_plain sample_recommend_in_range a sample_recommend_fallback b
  show ?thesis by blast
qed

section \<open>The gauge inventory\<close>

lemma addUsage_count:
  "sum_list (map usage_count (addUsage gauge st info m)) = sum_list (map usage_count m) + 1"
  by (induction m) auto

lemma addUsage_no_swap:
  "\<forall>u\<in>set m. usage_swapOption u = None \<Longrightarrow>
   \<forall>u\<in>set (addUsage gauge st info m). usage_swapOption u = None"
  by (induction m) auto

lemma filter_nth_upt:
  "length (filter (\<lambda>i. Q (xs ! i)) [0..<length xs]) = length (filter Q xs)"
proof -
  have "filter Q xs = filter Q (map (\<lambda>i. xs ! i) [0..<length xs])"
    by (simp add: map_nth)
  also have "\<dots> = map (\<lambda>i. xs ! i) (filter (\<lambda>i. Q (xs ! i)) [0..<length xs])"
    by (simp add: filter_map comp_def)
  finally show ?thesis by simp
qed

lemma collect_fold_count:
  "sum_list (map usage_count
     (foldl (\<lambda>m sIdx.
           case guitarSel ! sIdx of
             None \<Rightarrow> m
           | Some sel \<Rightarrow>
               if sel_gauge sel = 0 then m
               else addUsage (sel_gauge sel) (sel_type sel) (mk sIdx sel) m) m0 idxs))
   = sum_list (map usage_count m0) + length (filter (\<lambda>i. hasGauge (guitarSel ! i)) idxs)"
proof (induction idxs arbitrary: m0)
  case Nil
  then show ?case by simp
next
  case (Cons i idxs)
  show ?case
    by (simp add: Cons.IH addUsage_count hasGauge_def split: option.splits)
qed

lemma collect_fold_no_swap:
  "\<forall>u\<in>set m0. usage_swapOption u = None \<Longrightarrow>
   \<forall>u\<in>set (foldl (\<lambda>m sIdx.
           case guitarSel ! sIdx of
             None \<Rightarrow> m
           | Some sel \<Rightarrow>
               if sel_gauge sel = 0 then m
               else addUsage (sel_gauge sel) (sel_type sel) (mk sIdx sel) m) m0 idxs).
     usage_swapOption u = None"
proof (induction idxs arbitrary: m0)
  case Nil
  then show ?case by simp
next
  case (Cons i idxs)
  show ?case
  proof (cases "guitarSel ! i")
    case None
    then show ?thesis using Cons.IH [OF Cons.prems] by simp
  next
    case (Some sel)
    show ?thesis
    proof (cases "sel_gauge sel = 0")
      case True
      then show ?thesis using Some Cons.IH [OF Cons.prems] by simp
    next
      case False
      then show ?thesis
        using Some Cons.IH [OF addUsage_no_swap [OF Cons.prems]] by simp
    qed
  qed
qed

lemma collectGuitar_count:
  "sum_list (map usage_count (collectGuitar c guitar gIdx guitarSel m))
   = sum_list (map usage_count m) + length (filter hasGauge guitarSel)"
  unfolding collectGuitar_def Let_def
  by (simp only: collect_fold_count filter_nth_upt)

lemma collectGuitar_no_swap:
  "\<forall>u\<in>set m. usage_swapOption u = None \<Longrightarrow>
   \<forall>u\<in>set (collectGuitar c guitar gIdx guitarSel m). usage_swapOption u = None"
  unfolding collectGuitar_def Let_def by (rule collect_fold_no_swap)

lemma collectUsages_fold_count:
  "sum_list (map usage_count
     (foldl (\<lambda>m gIdx. collectGuitar c (guitars ! gIdx) gIdx (selectionsOf selections gIdx) m)
        m0 idxs))
   = sum_list (map usage_count m0)
     + (\<Sum>gIdx\<leftarrow>idxs. length (filter hasGauge (selectionsOf selections gIdx)))"
  by (induction idxs arbitrary: m0) (simp_all add: collectGuitar_count)

lemma collectUsages_fold_no_swap:
  "\<forall>u\<in>set m0. usage_swapOption u = None \<Longrightarrow>
   \<forall>u\<in>set (foldl (\<lambda>m gIdx. collectGuitar c (guitars ! gIdx) gIdx (selectionsOf selections gIdx) m)
        m0 idxs). usage_swapOption u = None"
proof (induction idxs arbitrary: m0)
  case Nil
  then show ?case by simp
next
  case (Cons i idxs)
  show ?case using Cons.IH [OF collectGuitar_no_swap [OF Cons.prems]] by simp
qed

lemma collectUsages_alt:
  "collectUsages c guitars selections =
   foldl (\<lambda>m gIdx. collectGuitar c (guitars ! gIdx) gIdx (selectionsOf selections gIdx) m)
     [] [0..<length guitars]"
  by (simp add: collectUsages_def)

lemma collectUsages_count:
  "sum_list (map usage_count (collectUsages c guitars selections))
   = (\<Sum>gIdx\<leftarrow>[0..<length guitars]. length (filter hasGauge (selectionsOf selections gIdx)))"
  by (simp add: collectUsages_alt collectUsages_fold_count)

lemma collectUsages_no_swap:
  "\<forall>u\<in>set (collectUsages c guitars selections). usage_swapOption u = None"
  unfolding collectUsages_alt by (rule collectUsages_fold_no_swap) simp

lemma findSwaps_count: "map usage_count (findSwaps c usages) = map usage_count usages"
  by (simp add: findSwaps_def comp_def split: option.splits)

lemma sum_list_insort_key:
  "sum_list (map f (insort_key k x xs)) = f x + sum_list (map (f :: 'a \<Rightarrow> nat) xs)"
  by (induction xs) auto

lemma sum_list_sort_key:
  "sum_list (map f (sort_key k xs)) = sum_list (map (f :: 'a \<Rightarrow> nat) xs)"
  by (induction xs) (simp_all add: sum_list_insort_key)

lemma usage_counts_total:
  "sum_list (map usage_count (buildGaugeUsages c guitars selections))
   = (\<Sum>gIdx\<leftarrow>[0..<length guitars]. length (filter hasGauge (selectionsOf selections gIdx)))"
  by (simp add: buildGaugeUsages_def sum_list_sort_key findSwaps_count collectUsages_count)

lemma findSwaps_swapOption:
  assumes "\<forall>u\<in>set usages. usage_swapOption u = None" "u \<in> set (findSwaps c usages)"
  shows "usage_swapOption u =
         (if usage_count u = 1 then findSwap c usages (u\<lparr>usage_swapOption := None\<rparr>) else None)"
proof -
  from assms(2) obtain u0 where u0: "u0 \<in> set usages"
    and u: "u = (if usage_count u0 \<noteq> 1 then u0
        else (case findSwap c usages u0 of
                None \<Rightarrow> u0
              | Some bestSwap \<Rightarrow> u0\<lparr>usage_swapOption := Some bestSwap\<rparr>))"
    by (auto simp: findSwaps_def)
  from assms(1) u0 have none: "usage_swapOption u0 = None" by blast
  have cnt: "usage_count u = usage_count u0"
    using u by (simp split: option.splits)
  have orig: "u\<lparr>usage_swapOption := None\<rparr> = u0"
    using u none by (cases u0) (simp split: option.splits)
  have opt: "usage_swapOption u = (if usage_count u0 = 1 then findSwap c usages u0 else None)"
    using u none by (simp split: option.splits)
  show ?thesis unfolding orig cnt by (rule opt)
qed

lemma all_strings_selected:
  assumes "\<forall>gIdx<length guitars. \<exists>guitarSel. selections gIdx = Some guitarSel \<and>
             length guitarSel = n_strings (guitars ! gIdx) \<and> (\<forall>e\<in>set guitarSel. hasGauge e)"
  shows "(\<Sum>gIdx\<leftarrow>[0..<length guitars]. length (filter hasGauge (selectionsOf selections gIdx)))
         = sum_list (map n_strings guitars)"
proof -
  have "\<forall>gIdx<length guitars.
          length (filter hasGauge (selectionsOf selections gIdx)) = n_strings (guitars ! gIdx)"
    using assms by (auto simp: selectionsOf_def)
  then have "map (\<lambda>gIdx. length (filter hasGauge (selectionsOf selections gIdx))) [0..<length guitars]
             = map (\<lambda>gIdx. n_strings (guitars ! gIdx)) [0..<length guitars]"
    by simp
  also have "\<dots> = map n_strings (map (\<lambda>i. guitars ! i) [0..<length guitars])"
    by (simp only: map_map comp_def)
  also have "\<dots> = map n_strings guitars"
    by (simp only: map_nth)
  finally show ?thesis by simp
qed

theorem buildGaugeUsages_total_counterexample:
  "sum_list (map usage_count (buildGaugeUsages sampleConstants [sampleGuitar] Map.empty)) = 0 \<and>
   sum_list (map n_strings [sampleGuitar]) = 6"
  by (simp add: buildGaugeUsages_def findSwaps_def collectUsages_def collectGuitar_def
      selectionsOf_def sampleGuitar_def)

text \<open>C5, amended: the counts of the groups that \<open>buildGaugeUsages\<close> produces add up
  to the number of selection entries, over the guitars' selection lists, that are present
  and have a non-zero gauge; this is the total number of strings when every guitar has
  one such entry for each of its strings.  A group carries the result of the swap search
  when its count is 1 and no swap suggestion otherwise.\<close>

theorem buildGaugeUsages_counts:
  "sum_list (map usage_count (buildGaugeUsages c guitars selections))
     = (\<Sum>gIdx\<leftarrow>[0..<length guitars]. length (filter hasGauge (selectionsOf selections gIdx))) \<and>
   ((\<forall>gIdx<length guitars. \<exists>guitarSel. selections gIdx = Some guitarSel \<and>
        length guitarSel = n_strings (guitars ! gIdx) \<and> (\<forall>e\<in>set guitarSel. hasGauge e)) \<longrightarrow>
    sum_list (map usage_count (buildGaugeUsages c guitars selections))
      = sum_list (map n_strings guitars)) \<and>
   (\<forall>u\<in>set (buildGaugeUsages c guitars selections).
      usage_swapOption u =
        (if usage_count u = 1
         then findSwap c (collectUsages c guitars selections) (u\<lparr>usage_swapOption := None\<rparr>)
         else None))"
proof (intro conjI impI ballI)
  show "sum_list (map usage_count (buildGaugeUsages c guitars selections))
     = (\<Sum>gIdx\<leftarrow>[0..<length guitars]. length (filter hasGauge (selectionsOf selections gIdx)))"
    by (rule usage_counts_total)
next
  assume "\<forall>gIdx<length guitars. \<exists>guitarSel. selections gIdx = Some guitarSel \<and>
        length guitarSel = n_strings (guitars ! gIdx) \<and> (\<forall>e\<in>set guitarSel. hasGauge e)"
  then show "sum_list (map usage_count (buildGaugeUsages c guitars selections))
      = sum_list (map n_strings guitars)"
    by (simp only: usage_counts_total all_strings_selected)
next
  fix u assume "u \<in> set (buildGaugeUsages c guitars selections)"
  then have "u \<in> set (findSwaps c (collectUsages c guitars selections))"
    by (simp add: buildGaugeUsages_def)
  then show "usage_swapOption u =
        (if usage_count u = 1
         then findSwap c (collectUsages c guitars selections) (u\<lparr>usage_swapOption := None\<rparr>)
         else None)"
    by (rule findSwaps_swapOption [OF collectUsages_no_swap])
qed

lemma sample_usage_counts:
  "map usage_count
     (buildGaugeUsages sampleConstants [sampleGuitar] (Map.empty(0 \<mapsto> sampleSelection)))
   = [1, 2, 1, 2]"
  by code_simp

lemma sample_first_swap:
  "map_option swap_gauge (usage_swapOption
     (buildGaugeUsages sampleConstants [sampleGuitar] (Map.empty(0 \<mapsto> sampleSelection)) ! 0))
   = Some 0.010"
  by code_simp

theorem buildGaugeUsages_counts_witness:
  "sum_list (map usage_count
     (buildGaugeUsages sampleConstants [sampleGuitar] (Map.empty(0 \<mapsto> sampleSelection))))
     = sum_list (map n_strings [sampleGuitar]) \<and>
   sum_list (map n_strings [sampleGuitar]) = 6 \<and>
   usage_count
     (buildGaugeUsages sampleConstants [sampleGuitar] (Map.empty(0 \<mapsto> sampleSelection)) ! 0) = 1 \<and>
   usage_swapOption
     (buildGaugeUsages sampleConstants [sampleGuitar] (Map.empty(0 \<mapsto> sampleSelection)) ! 0)
     = findSwap sampleConstants
         (collectUsages sampleConstants [sampleGuitar] (Map.empty(0 \<mapsto> sampleSelection)))
         ((buildGaugeUsages sampleConstants [sampleGuitar] (Map.empty(0 \<mapsto> sampleSelection)) ! 0)
            \<lparr>usage_swapOption := None\<rparr>) \<and>
   usage_count
     (buildGaugeUsages sampleConstants [sampleGuitar] (Map.empty(0 \<mapsto> sampleSelection)) ! 1) = 2 \<and>
   usage_swapOption
     (buildGaugeUsages sampleConstants [sampleGuitar] (Map.empty(0 \<mapsto> sampleSelection)) ! 1)
     = None"
proof -
  define r where
    "r = buildGaugeUsages sampleConstants [sampleGuitar] (Map.empty(0 \<mapsto> sampleSelection))"
  note main = buildGaugeUsages_counts
    [of sampleConstants "[sampleGuitar]" "Map.empty(0 \<mapsto> sampleSelection)", folded r_def]
  have full: "\<forall>gIdx<length [sampleGuitar].
      \<exists>guitarSel. (Map.empty(0 \<mapsto> sampleSelection)) gIdx = Some guitarSel \<and>
        length guitarSel = n_strings ([sampleGuitar] ! gIdx) \<and> (\<forall>e\<in>set guitarSel. hasGauge e)"
    by (simp add: sampleGuitar_def sampleSelection_def hasGauge_def)
  have total: "sum_list (map usage_count r) = sum_list (map n_strings [sampleGuitar])"
    using main full by blast
  have six: "sum_list (map n_strings [sampleGuitar]) = 6"
    by (simp add: sampleGuitar_def)
  have counts: "map usage_count r = [1, 2, 1, 2]"
    unfolding r_def by (rule sample_usage_counts)
  have "length (map usage_count r) = length [1, 2, 1, 2 :: nat]"
    using counts by simp
  then have len: "length r = 4" by simp
  have "map usage_count r ! 0 = 1" "map usage_count r ! 1 = 2"
    unfolding counts by simp_all
  then have c0: "usage_count (r ! 0) = 1" and c1: "usage_count (r ! 1) = 2"
    using len by simp_all
  have "r ! 0 \<in> set r" "r ! 1 \<in> set r" using len by simp_all
  with main have
    s0: "usage_swapOption (r ! 0) =
        (if usage_count (r ! 0) = 1
         then findSwap sampleConstants
           (collectUsages sampleConstants [sampleGuitar] (Map.empty(0 \<mapsto> sampleSelection)))
           ((r ! 0)\<lparr>usage_swapOption := None\<rparr>) else None)"
    and s1: "usage_swapOption (r ! 1) =
        (if usage_count (r ! 1) = 1
         then findSwap sampleConstants
           (collectUsages sampleConstants [sampleGuitar] (Map.empty(0 \<mapsto> sampleSelection)))
           ((r ! 1)\<lparr>usage_swapOption := None\<rparr>) else None)"
    by blast+
  from total six c0 c1 s0 s1 show ?thesis
    unfolding r_def [symmetric] by simp
qed

section \<open>The global optimizer\<close>

lemma leastDeviation_mem: "leastDeviation dev gs = Some g \<Longrightarrow> g \<in> set gs"
  by (induction gs arbitrary: g) (auto split: option.splits if_splits)

lemma commonGauges_common:
  assumes "g \<in> set (commonGauges strings cl)"
  shows "(g, cl) \<in> snd ` set strings \<and> 1 < usageCount strings (g, cl)"
proof -
  from assms obtain p where p: "p \<in> set (map snd strings)" "snd p = cl"
    "1 < usageCount strings p" "fst p = g"
    by (auto simp: commonGauges_def)
  have "p = (g, cl)" using p(2,4) by (metis prod.collapse)
  with p(1,3) show ?thesis by auto
qed

lemma swapCandidate_common:
  "swapCandidate c strings ctx sel = Some g \<Longrightarrow>
   (g, snd sel) \<in> snd ` set strings \<and> 1 < usageCount strings (g, snd sel)"
  unfolding swapCandidate_def
  by (rule commonGauges_common) (rule leastDeviation_mem)

lemma consolidateString_cases:
  "consolidateString c strings (ctx, sel) = (ctx, sel) \<or>
   (usageCount strings sel = 1 \<and>
    (\<exists>g. consolidateString c strings (ctx, sel) = (ctx, (g, snd sel)) \<and>
         (g, snd sel) \<in> snd ` set strings \<and> 1 < usageCount strings (g, snd sel)))"
proof (cases "usageCount strings sel = 1")
  case False
  then show ?thesis by (simp add: consolidateString_def)
next
  case True
  show ?thesis
  proof (cases "swapCandidate c strings ctx sel")
    case None
    then show ?thesis by (simp add: consolidateString_def)
  next
    case (Some g)
    show ?thesis
    proof (cases "inTarget c ctx g")
      case False
      then show ?thesis using Some by (simp add: consolidateString_def)
    next
      case inT: True
      have "consolidateString c strings (ctx, sel) = (ctx, (g, snd sel))"
        using True Some inT by (simp add: consolidateString_def)
      with swapCandidate_common [OF Some] True show ?thesis by blast
    qed
  qed
qed

lemma consolidate_pairs_subset:
  "snd ` set (consolidate c strings) \<subseteq> snd ` set strings"
proof
  fix p assume "p \<in> snd ` set (consolidate c strings)"
  then obtain ctx sel where mem: "(ctx, sel) \<in> set strings"
    and p: "p = snd (consolidateString c strings (ctx, sel))"
    by (auto simp: consolidate_def)
  from consolidateString_cases [of c strings ctx sel] show "p \<in> snd ` set strings"
  proof
    assume "consolidateString c strings (ctx, sel) = (ctx, sel)"
    with p mem show ?thesis by force
  next
    assume "usageCount strings sel = 1 \<and>
      (\<exists>g. consolidateString c strings (ctx, sel) = (ctx, (g, snd sel)) \<and>
         (g, snd sel) \<in> snd ` set strings \<and> 1 < usageCount strings (g, snd sel))"
    then obtain g where "consolidateString c strings (ctx, sel) = (ctx, (g, snd sel))"
      "(g, snd sel) \<in> snd ` set strings" by blast
    with p show ?thesis by simp
  qed
qed

lemma singleton_context:
  assumes "usageCount strings sel = 1" "(ctx, sel) \<in> set strings" "(ctx', sel) \<in> set strings"
  shows "ctx' = ctx"
proof -
  define F where "F = filter (\<lambda>(ctx, s). s = sel) strings"
  have "length F = 1" using assms(1) by (simp add: F_def usageCount_def)
  then obtain x where F: "F = [x]" by (cases F) auto
  have "(ctx, sel) \<in> set F" "(ctx', sel) \<in> set F" using assms(2,3) by (auto simp: F_def)
  with F have "(ctx, sel) = x" "(ctx', sel) = x" by simp_all
  then show ?thesis by (metis fst_conv)
qed

lemma consolidate_decreases:
  assumes "consolidate c strings \<noteq> strings"
  shows "card (snd ` set (consolidate c strings)) < card (snd ` set strings)"
proof -
  have "\<exists>x\<in>set strings. consolidateString c strings x \<noteq> x"
  proof (rule ccontr)
    assume "\<not> (\<exists>x\<in>set strings. consolidateString c strings x \<noteq> x)"
    then have "map (consolidateString c strings) strings = strings"
      by (intro map_idI) simp
    with assms show False by (simp add: consolidate_def)
  qed
  then obtain ctx sel where mem: "(ctx, sel) \<in> set strings"
    and changed: "consolidateString c strings (ctx, sel) \<noteq> (ctx, sel)"
    by auto
  from consolidateString_cases [of c strings ctx sel] changed obtain g where
    single: "usageCount strings sel = 1"
    and swap: "consolidateString c strings (ctx, sel) = (ctx, (g, snd sel))"
    and common: "1 < usageCount strings (g, snd sel)" by blast
  have gone: "sel \<notin> snd ` set (consolidate c strings)"
  proof
    assume "sel \<in> snd ` set (consolidate c strings)"
    then obtain ctx0 sel0 where mem0: "(ctx0, sel0) \<in> set strings"
      and eq: "sel = snd (consolidateString c strings (ctx0, sel0))"
      by (auto simp: consolidate_def)
    from consolidateString_cases [of c strings ctx0 sel0] show False
    proof
      assume same: "consolidateString c strings (ctx0, sel0) = (ctx0, sel0)"
      with eq have "sel0 = sel" by simp
      with singleton_context [OF single mem] mem0 have "ctx0 = ctx" by simp
      with same \<open>sel0 = sel\<close> changed show False by simp
    next
      assume "usageCount strings sel0 = 1 \<and>
        (\<exists>g. consolidateString c strings (ctx0, sel0) = (ctx0, (g, snd sel0)) \<and>
           (g, snd sel0) \<in> snd ` set strings \<and> 1 < usageCount strings (g, snd sel0))"
      with eq have "1 < usageCount strings sel" by auto
      with single show False by simp
    qed
  qed
  have "sel \<in> snd ` set strings" using mem by force
  with gone consolidate_pairs_subset [of c strings]
  have "snd ` set (consolidate c strings) \<subset> snd ` set strings" by blast
  then show ?thesis by (intro psubset_card_mono) simp_all
qed

text \<open>Every pass that changes the working set removes a pair, so the repetition ends.\<close>

termination minimize
proof (relation "measure (\<lambda>(c, strings). card (snd ` set strings))")
  show "wf (measure (\<lambda>(c, strings). card (snd ` set strings)))" by simp
next
  fix c :: constants and strings strings' :: WorkingSet
  assume "strings' = consolidate c strings" "strings' \<noteq> strings"
  then show "((c, strings'), (c, strings)) \<in> measure (\<lambda>(c, strings). card (snd ` set strings))"
    using consolidate_decreases [of c strings] by simp
qed

lemma minimize_pairs:
  "card (snd ` set (minimize c strings)) \<le> card (snd ` set strings)"
proof (induction c strings rule: minimize.induct)
  case (1 c strings)
  show ?case
  proof (cases "consolidate c strings = strings")
    case True
    then show ?thesis by (subst minimize.simps) simp
  next
    case False
    have "card (snd ` set (minimize c (consolidate c strings)))
          \<le> card (snd ` set (consolidate c strings))"
      using "1.IH" [OF refl False] .
    also have "\<dots> \<le> card (snd ` set strings)"
      using consolidate_decreases [OF False] by simp
    finally show ?thesis using False by (subst minimize.simps) (simp add: Let_def)
  qed
qed

lemma minimize_fixed_point:
  "consolidate c (minimize c strings) = minimize c strings"
proof (induction c strings rule: minimize.induct)
  case (1 c strings)
  show ?case
  proof (cases "consolidate c strings = strings")
    case True
    then have "minimize c strings = strings" by (subst minimize.simps) simp
    with True show ?thesis by simp
  next
    case False
    then have "minimize c strings = minimize c (consolidate c strings)"
      by (subst minimize.simps) (simp add: Let_def)
    with "1.IH" [OF refl False] show ?thesis by simp
  qed
qed

lemma repair_in_range:
  "\<forall>(ctx, sel)\<in>set strings. inTarget c ctx (fst sel) \<Longrightarrow> repair c strings = strings"
  unfolding repair_def by (intro map_idI) auto

theorem optimize_distinct_counterexample:
  "distinctPairs (optimize sampleConstants sampleStrings) = 3 \<and>
   distinctPairs (map snd sampleStrings) = 2"
  by code_simp

text \<open>C3, amended: the selection set that \<open>optimize\<close> returns has no more distinct
  (gauge, class) pairs than the set has after the repair pass, and so no more than the
  input has whenever every string of the input is inside its target range; the result is
  a fixed point of the consolidation pass.\<close>

theorem optimize_distinct_pairs:
  "distinctPairs (optimize c strings) \<le> distinctPairs (map snd (repair c strings)) \<and>
   ((\<forall>(ctx, sel)\<in>set strings. inTarget c ctx (fst sel)) \<longrightarrow>
      distinctPairs (optimize c strings) \<le> distinctPairs (map snd strings)) \<and>
   consolidate c (minimize c (repair c strings)) = minimize c (repair c strings)"
proof -
  have a: "distinctPairs (optimize c strings) \<le> distinctPairs (map snd (repair c strings))"
    using minimize_pairs [of c "repair c strings"]
    by (simp add: distinctPairs_def optimize_def)
  have b: "(\<forall>(ctx, sel)\<in>set strings. inTarget c ctx (fst sel)) \<longrightarrow>
      distinctPairs (optimize c strings) \<le> distinctPairs (map snd strings)"
  proof
    assume "\<forall>(ctx, sel)\<in>set strings. inTarget c ctx (fst sel)"
    then have "repair c strings = strings" by (rule repair_in_range)
    with a show "distinctPairs (optimize c strings) \<le> distinctPairs (map snd strings)"
      by simp
  qed
  from a b minimize_fixed_point [of c "repair c strings"] show ?thesis by blast
qed

lemma sample_in_range_optimize:
  "optimize sampleConstants inRangeStrings = [(0.010, P), (0.010, P), (0.010, P)]"
  by code_simp

lemma sample_in_range_targets:
  "\<forall>(ctx, sel)\<in>set inRangeStrings. inTarget sampleConstants ctx (fst sel)"
  by code_simp

lemma sample_in_range_pairs: "distinctPairs (map snd inRangeStrings) = 2"
  by code_simp

theorem optimize_distinct_pairs_witness:
  "distinctPairs (optimize sampleConstants inRangeStrings)
     \<le> distinctPairs (map snd inRangeStrings) \<and>
   optimize sampleConstants inRangeStrings = [(0.010, P), (0.010, P), (0.010, P)] \<and>
   distinctPairs (map snd inRangeStrings) = 2"
  using optimize_distinct_pairs [of sampleConstants inRangeStrings]
    sample_in_range_targets sample_in_range_optimize sample_in_range_pairs
  by blast

end
